theory Spec2Isabelle
  imports Complex_Main "HOL-Library.Log_Nat"
begin

section \<open>Numbers of the script engine\<close>

text \<open>
  A number of the engine is an IEEE 754 double: a finite value, an infinity, or
  \<^verbatim>\<open>NaN\<close>. A finite double is kept as the rational it denotes. The two zeros are kept as
  one: no operation of \<^verbatim>\<open>static/js/app.js\<close> tells them apart (both are falsy, both
  print as \<^verbatim>\<open>0\<close>, and line 192 takes the maximum with 5).
\<close>

datatype jsnum = Fin rat | PInf | NInf | NaN

text \<open>
  Rounding a rational to the nearest double, a tie going to the even significand, as the
  engine does when it reads a number from JSON text and after every arithmetic operation.
  \<open>pow2 e\<close> is the power \<open>2^e\<close> for an integer \<open>e\<close>; \<open>exponent x\<close> is the \<open>e\<close> with
  \<open>2^e \<le> \<bar>x\<bar> < 2^(e+1)\<close>; \<open>ulp x\<close> is the distance between the doubles around \<open>x\<close>
  (significands have 53 bits, and below \<open>2^-1022\<close> the doubles are evenly spaced); a
  result of magnitude \<open>2^1024\<close> or more is an infinity.
\<close>

definition pow2 :: "int \<Rightarrow> rat" where
  "pow2 e = (if 0 \<le> e then of_int (2 ^ nat e) else 1 / of_int (2 ^ nat (- e)))"

definition exponent :: "rat \<Rightarrow> int" where
  "exponent x =
     (if 1 \<le> \<bar>x\<bar> then bitlen \<lfloor>\<bar>x\<bar>\<rfloor> - 1 else - bitlen (\<lceil>1 / \<bar>x\<bar>\<rceil> - 1))"

definition ulp :: "rat \<Rightarrow> rat" where
  "ulp x = pow2 (max (exponent x) (- 1022) - 52)"

definition round_half_even :: "rat \<Rightarrow> int" where
  "round_half_even q =
     (let f = \<lfloor>q\<rfloor>; d = q - of_int f
      in if d < 1 / 2 then f else if 1 / 2 < d then f + 1 else if even f then f else f + 1)"

definition to_double :: "rat \<Rightarrow> jsnum" where
  "to_double x =
     (if x = 0 then Fin 0
      else
        (let y = of_int (round_half_even (x / ulp x)) * ulp x
         in if 1024 \<le> exponent y then (if 0 < x then PInf else NInf) else Fin y))"

subsection \<open>Arithmetic of line 192\<close>

fun js_sign :: "jsnum \<Rightarrow> int" where
  "js_sign (Fin a) = (if a < 0 then - 1 else if a = 0 then 0 else 1)"
| "js_sign PInf = 1"
| "js_sign NInf = - 1"
| "js_sign NaN = 0"

text \<open>\<^verbatim>\<open>a * b\<close> and \<^verbatim>\<open>a - b\<close> on numbers: the exact result, rounded.\<close>

fun js_mul :: "jsnum \<Rightarrow> jsnum \<Rightarrow> jsnum" where
  "js_mul (Fin a) (Fin b) = to_double (a * b)"
| "js_mul NaN b = NaN"
| "js_mul a NaN = NaN"
| "js_mul a b =
     (let s = js_sign a * js_sign b in if s = 0 then NaN else if 0 < s then PInf else NInf)"

fun js_sub :: "jsnum \<Rightarrow> jsnum \<Rightarrow> jsnum" where
  "js_sub (Fin a) (Fin b) = to_double (a - b)"
| "js_sub NaN b = NaN"
| "js_sub a NaN = NaN"
| "js_sub PInf PInf = NaN"
| "js_sub NInf NInf = NaN"
| "js_sub PInf b = PInf"
| "js_sub NInf b = NInf"
| "js_sub a PInf = NInf"
| "js_sub a NInf = PInf"

text \<open>
  \<^verbatim>\<open>Math.round\<close>: the nearest integer, a tie going up; the integer nearest to a double is
  a double, so nothing is rounded a second time.
\<close>

fun math_round :: "jsnum \<Rightarrow> jsnum" where
  "math_round (Fin a) = Fin (of_int \<lfloor>a + 1 / 2\<rfloor>)"
| "math_round a = a"

fun math_max :: "jsnum \<Rightarrow> jsnum \<Rightarrow> jsnum" where
  "math_max NaN b = NaN"
| "math_max a NaN = NaN"
| "math_max PInf b = PInf"
| "math_max a PInf = PInf"
| "math_max NInf b = b"
| "math_max a NInf = a"
| "math_max (Fin a) (Fin b) = Fin (max a b)"

text \<open>\<^verbatim>\<open>Math.max(5, Math.round(140 - count*2.0))\<close>, on the number that \<^verbatim>\<open>count\<close> coerces to.\<close>

definition derive_distance :: "jsnum \<Rightarrow> jsnum" where
  "derive_distance c = math_max (Fin 5) (math_round (js_sub (Fin 140) (js_mul c (Fin 2))))"

section \<open>Values of the script engine\<close>

text \<open>
  The values that \<^verbatim>\<open>static/js/app.js\<close> handles after \<^verbatim>\<open>JSON.parse\<close> and
  \<^verbatim>\<open>res.json()\<close>: \<^verbatim>\<open>undefined\<close> (the result of reading a property that is not
  there), \<^verbatim>\<open>null\<close>, booleans, numbers, strings, arrays and plain objects. An object is
  the list of its own properties, one entry per name; a lookup takes the first entry of a
  name.

  A number is kept as the rational that its JSON text denotes. The engine holds the double
  nearest to it, \<open>to_double\<close> of that rational, and everything the script does with the
  number (its truth value, its print, its use in arithmetic) goes through that double.
\<close>

datatype jsval =
    JUndefined
  | JNull
  | JBool bool
  | JNum rat
  | JStr string
  | JArr "jsval list"
  | JObj "(string \<times> jsval) list"

datatype exn = Type_error | Fetch_failed | Body_unreadable | Syntax_error

text \<open>Truthiness, as \<^verbatim>\<open>||\<close>, \<^verbatim>\<open>if (x)\<close> and \<^verbatim>\<open>x ? a : b\<close> test it.\<close>

fun truthy :: "jsval \<Rightarrow> bool" where
  "truthy JUndefined = False"
| "truthy JNull = False"
| "truthy (JBool b) = b"
| "truthy (JNum r) = (to_double r \<noteq> Fin 0)"
| "truthy (JStr s) = (s \<noteq> [])"
| "truthy (JArr xs) = True"
| "truthy (JObj kvs) = True"

fun nullish :: "jsval \<Rightarrow> bool" where
  "nullish JUndefined = True"
| "nullish JNull = True"
| "nullish v = False"

text \<open>\<^verbatim>\<open>a || b\<close> and \<^verbatim>\<open>a ?? b\<close>.\<close>

definition js_or :: "jsval \<Rightarrow> jsval \<Rightarrow> jsval" where
  "js_or a b = (if truthy a then a else b)"

definition js_coalesce :: "jsval \<Rightarrow> jsval \<Rightarrow> jsval" where
  "js_coalesce a b = (if nullish a then b else a)"

text \<open>
  \<^verbatim>\<open>v.name\<close> on a value that is neither \<^verbatim>\<open>null\<close> nor \<^verbatim>\<open>undefined\<close> (on those the
  read raises a TypeError, which the callers below test first). The names the script reads
  (\<^verbatim>\<open>output_image\<close>, \<^verbatim>\<open>annotated\<close>, \<^verbatim>\<open>image\<close>, \<^verbatim>\<open>vehicle_count\<close>, \<^verbatim>\<open>count\<close>,
  \<^verbatim>\<open>vehicles\<close>, \<^verbatim>\<open>risk_level\<close>, \<^verbatim>\<open>risk\<close>, \<^verbatim>\<open>distance\<close>, \<^verbatim>\<open>alert\<close>,
  \<^verbatim>\<open>recommended_action\<close>) are on no built-in prototype, so only an object's own
  properties answer.
\<close>

fun get_prop :: "jsval \<Rightarrow> string \<Rightarrow> jsval" where
  "get_prop (JObj kvs) k = (case map_of kvs k of None \<Rightarrow> JUndefined | Some v \<Rightarrow> v)"
| "get_prop v k = JUndefined"

text \<open>\<^verbatim>\<open>Array.prototype.join\<close> with the separator \<^verbatim>\<open>","\<close>; \<open>None\<close> is a raised TypeError.\<close>

fun join_opt :: "string option list \<Rightarrow> string option" where
  "join_opt [] = Some []"
| "join_opt [x] = x"
| "join_opt (x # y # ys) =
     (case x of
        None \<Rightarrow> None
      | Some s \<Rightarrow> (case join_opt (y # ys) of None \<Rightarrow> None | Some t \<Rightarrow> Some (s @ '','' @ t)))"

text \<open>
  The print of a number. The print of a finite double is the engine's and is a parameter
  \<open>ns\<close>.
\<close>

fun num_string :: "(rat \<Rightarrow> string) \<Rightarrow> jsnum \<Rightarrow> string" where
  "num_string ns (Fin a) = ns a"
| "num_string ns PInf = ''Infinity''"
| "num_string ns NInf = ''-Infinity''"
| "num_string ns NaN = ''NaN''"

text \<open>
  \<^verbatim>\<open>ToString\<close>, which a template literal and the \<^verbatim>\<open>src\<close> setter of an image apply.
  An array prints its elements joined by commas, \<^verbatim>\<open>null\<close> and \<^verbatim>\<open>undefined\<close> as the
  empty string. A parsed object has no callable \<^verbatim>\<open>toString\<close> or \<^verbatim>\<open>valueOf\<close> of its
  own: with an own property \<^verbatim>\<open>toString\<close> (never a function after \<^verbatim>\<open>JSON.parse\<close>) the
  conversion raises a TypeError, otherwise \<^verbatim>\<open>Object.prototype.toString\<close> answers.
\<close>

fun to_string :: "(rat \<Rightarrow> string) \<Rightarrow> jsval \<Rightarrow> string option" where
  "to_string ns JUndefined = Some ''undefined''"
| "to_string ns JNull = Some ''null''"
| "to_string ns (JBool b) = Some (if b then ''true'' else ''false'')"
| "to_string ns (JNum r) = Some (num_string ns (to_double r))"
| "to_string ns (JStr s) = Some s"
| "to_string ns (JArr xs) =
     join_opt (map (\<lambda>x. if nullish x then Some [] else to_string ns x) xs)"
| "to_string ns (JObj kvs) =
     (if map_of kvs ''toString'' = None then Some ''[object Object]'' else None)"

text \<open>
  \<^verbatim>\<open>ToNumber\<close>, which \<^verbatim>\<open>count*2.0\<close> applies. The reading of a string as a number is the
  engine's and is a parameter \<open>sn\<close>; arrays and objects go through their string.
\<close>

fun to_number :: "(rat \<Rightarrow> string) \<Rightarrow> (string \<Rightarrow> jsnum) \<Rightarrow> jsval \<Rightarrow> jsnum option" where
  "to_number ns sn JUndefined = Some NaN"
| "to_number ns sn JNull = Some (Fin 0)"
| "to_number ns sn (JBool b) = Some (Fin (if b then 1 else 0))"
| "to_number ns sn (JNum r) = Some (to_double r)"
| "to_number ns sn (JStr s) = Some (sn s)"
| "to_number ns sn v = map_option sn (to_string ns v)"

text \<open>Line 192 on the value of \<^verbatim>\<open>count\<close>; \<open>None\<close> is a TypeError raised by the coercion.\<close>

definition sensor_distance ::
  "(rat \<Rightarrow> string) \<Rightarrow> (string \<Rightarrow> jsnum) \<Rightarrow> jsval \<Rightarrow> jsnum option" where
  "sensor_distance ns sn count = map_option derive_distance (to_number ns sn count)"

subsection \<open>Field aliases of the detection response (lines 172 to 174)\<close>

definition outImg_of :: "jsval \<Rightarrow> jsval" where
  "outImg_of json =
     js_or (js_or (js_or (get_prop json ''output_image'') (get_prop json ''annotated''))
                  (get_prop json ''image''))
           JNull"

definition count_of :: "jsval \<Rightarrow> jsval" where
  "count_of json =
     js_coalesce
       (js_coalesce (js_coalesce (get_prop json ''vehicle_count'') (get_prop json ''count''))
                    (get_prop json ''vehicles''))
       JNull"

definition risk_of :: "jsval \<Rightarrow> jsval" where
  "risk_of json = js_or (js_or (get_prop json ''risk_level'') (get_prop json ''risk'')) JNull"

text \<open>
  The resolver in the words of the specification: the aliases are tried in order and the
  first one that is present in the response wins.
\<close>

definition has_prop :: "jsval \<Rightarrow> string \<Rightarrow> bool" where
  "has_prop v k = (case v of JObj kvs \<Rightarrow> map_of kvs k \<noteq> None | _ \<Rightarrow> False)"

definition first_present :: "string list \<Rightarrow> jsval \<Rightarrow> jsval" where
  "first_present aliases json =
     (case find (has_prop json) aliases of None \<Rightarrow> JNull | Some k \<Rightarrow> get_prop json k)"

text \<open>The same ordered resolver with the test on the value that the code applies.\<close>

definition first_such :: "(jsval \<Rightarrow> bool) \<Rightarrow> string list \<Rightarrow> jsval \<Rightarrow> jsval" where
  "first_such P aliases json =
     (case find (\<lambda>k. P (get_prop json k)) aliases of None \<Rightarrow> JNull | Some k \<Rightarrow> get_prop json k)"

section \<open>The page and its surroundings\<close>

text \<open>
  Strings are byte strings; the two characters of the script's messages outside ASCII, the
  ellipsis and the dash, are written as their UTF-8 bytes.
\<close>

definition hellip :: string where
  "hellip = [CHR 0xE2, CHR 0x80, CHR 0xA6]"

definition mdash :: string where
  "mdash = [CHR 0xE2, CHR 0x80, CHR 0x94]"

text \<open>
  The decimal print of a natural number, which is what the engine gives for an HTTP status
  and for \<^verbatim>\<open>Date.now()\<close> in a string concatenation.
\<close>

definition digit_char :: "nat \<Rightarrow> char" where
  "digit_char d = ''0123456789'' ! d"

fun show_nat :: "nat \<Rightarrow> string" where
  "show_nat n = (if n < 10 then [digit_char n] else show_nat (n div 10) @ [digit_char (n mod 10)])"

declare show_nat.simps [simp del]

record img =
  img_src :: string
  img_display :: string

datatype log_entry =
    Log_preview_fail
  | Log_detect_server_error nat
  | Log_detect_not_json
  | Log_detect_fetch_error exn
  | Log_detect_json jsval
  | Log_iot_non_ok nat
  | Log_iot_error exn

text \<open>
  What one control binding of \<^verbatim>\<open>attachDetectHandlers\<close> can see and change: the trigger's
  \<^verbatim>\<open>disabled\<close> flag, the status element (it always exists: lines 101 to 106 create it
  when the container has none), the optional preview, annotated-image, metadata and
  sensor-output elements (\<open>None\<close>: the container has no such element, a fact that does not
  change during a run), the \<^verbatim>\<open>src\<close> attribute of every \<^verbatim>\<open>.metrics-thumb\<close> element of the
  document in document order (\<open>None\<close>: the element has no such attribute), and the console.
  The roles are taken to be distinct nodes, the preview and annotated elements to be images,
  no thumbnail to be an element of the binding, and a thumbnail with the attribute to be
  an element whose \<^verbatim>\<open>src\<close> property writes it (an image).
\<close>

record page =
  btn_disabled :: bool
  status_html :: string
  status_class :: string
  preview :: "img option"
  annotated :: "img option"
  meta :: "string option"
  iot :: "string option"
  thumbs :: "string option list"
  console :: "log_entry list"

text \<open>
  What a server does with a request: the request fails in transport, or a response arrives
  with a status and a body that cannot be read, reads as text that is not JSON, or reads
  as JSON text of a value.
\<close>

datatype body = Unreadable | Not_json | Json jsval

datatype reply = Transport_failure | Response nat body

text \<open>
  The surroundings of one run: the file input of the binding (\<open>None\<close>: the container has
  none) with its \<^verbatim>\<open>files\<close> (\<open>None\<close>: the property is null), files being named by strings;
  \<^verbatim>\<open>URL.createObjectURL\<close> (\<open>None\<close>: it raises); the answers of the two endpoints;
  \<^verbatim>\<open>Date.now()\<close> at the end of the run; and the engine's two number conversions.
\<close>

record env =
  input_files :: "string list option option"
  object_url :: "string \<Rightarrow> string option"
  detect_reply :: "string \<Rightarrow> reply"
  iot_reply :: "jsnum \<Rightarrow> reply"
  now :: nat
  num_to_str :: "rat \<Rightarrow> string"
  str_to_num :: "string \<Rightarrow> jsnum"

text \<open>\<^verbatim>\<open>resp.ok\<close>: the status is in the range 200 to 299.\<close>

definition http_ok :: "nat \<Rightarrow> bool" where
  "http_ok st = (200 \<le> st \<and> st \<le> 299)"

definition log :: "log_entry \<Rightarrow> page \<Rightarrow> page" where
  "log l p = p\<lparr>console := console p @ [l]\<rparr>"

text \<open>\<^verbatim>\<open>setStatus\<close> on the status element of the binding (lines 43 to 47).\<close>

definition setStatus :: "string \<Rightarrow> string \<Rightarrow> page \<Rightarrow> page" where
  "setStatus html klass p =
     p\<lparr>status_html := html, status_class := (if klass \<noteq> [] then klass else [])\<rparr>"

definition processing_html :: string where
  "processing_html = ''<em>Processing'' @ hellip @ ''</em>''"

definition choose_file_html :: string where
  "choose_file_html = ''<span style='color:orange'>Please choose an image first</span>''"

definition server_error_html :: "nat \<Rightarrow> string" where
  "server_error_html st = ''<span style='color:red'>Server error '' @ show_nat st @ ''</span>''"

definition invalid_response_html :: string where
  "invalid_response_html =
     ''<span style='color:red'>Invalid server response '' @ mdash @ '' check backend logs</span>''"

definition network_error_html :: string where
  "network_error_html =
     ''<span style='color:red'>Network error '' @ mdash @ '' backend may be down</span>''"

definition completed_html :: string where
  "completed_html = ''<b>Detection completed</b>''"

definition iot_failed_html :: string where
  "iot_failed_html = ''IoT sim failed '' @ mdash @ '' see console.''"

section \<open>The sensor client (lines 56 to 72)\<close>

text \<open>
  \<^verbatim>\<open>callIot\<close> on the reply of \<^verbatim>\<open>/api/iot\<close>: the value it returns and what it writes to
  the console. Every failure is caught inside and returns \<^verbatim>\<open>null\<close>.
\<close>

fun callIot :: "reply \<Rightarrow> jsval \<times> log_entry list" where
  "callIot Transport_failure = (JNull, [Log_iot_error Fetch_failed])"
| "callIot (Response st b) =
     (if \<not> http_ok st then (JNull, [Log_iot_non_ok st])
      else (case b of
              Unreadable \<Rightarrow> (JNull, [Log_iot_error Body_unreadable])
            | Not_json \<Rightarrow> (JNull, [Log_iot_error Syntax_error])
            | Json j \<Rightarrow> (j, [])))"

text \<open>
  The three failure classes of the specification, as a test on a reply: transport failure,
  non-success status, body not parseable.
\<close>

fun sensor_failure :: "reply \<Rightarrow> bool" where
  "sensor_failure Transport_failure = True"
| "sensor_failure (Response st b) = (\<not> http_ok st \<or> b = Unreadable \<or> b = Not_json)"

section \<open>The thumbnail refresh (lines 75 to 82)\<close>

text \<open>\<^verbatim>\<open>s.split("?")[0]\<close>: the part of \<open>s\<close> before its first question mark.\<close>

definition url_base :: "string \<Rightarrow> string" where
  "url_base s = takeWhile (\<lambda>c. c \<noteq> CHR ''?'') s"

definition busted :: "nat \<Rightarrow> string \<Rightarrow> string" where
  "busted t s = url_base s @ ''?t='' @ show_nat t"

text \<open>
  The \<^verbatim>\<open>forEach\<close> over the thumbnails at time \<open>t\<close>. On an element without a \<^verbatim>\<open>src\<close>
  attribute \<^verbatim>\<open>getAttribute\<close> gives \<^verbatim>\<open>null\<close>, the call of \<^verbatim>\<open>split\<close> raises a TypeError
  and the loop ends there. The result is the attributes afterwards and whether it raised.
\<close>

fun refreshMetricsThumbnails :: "nat \<Rightarrow> string option list \<Rightarrow> string option list \<times> bool" where
  "refreshMetricsThumbnails t [] = ([], False)"
| "refreshMetricsThumbnails t (None # imgs) = (None # imgs, True)"
| "refreshMetricsThumbnails t (Some s # imgs) =
     (case refreshMetricsThumbnails t imgs of (imgs', raised) \<Rightarrow> (Some (busted t s) # imgs', raised))"

section \<open>The click handler (lines 114 to 205)\<close>

text \<open>
  A run of the handler is recorded with the page it leaves, the way it ends, and the
  requests it issued in order, each with the page as it was at that moment. The handler is
  suspended only while it awaits a request or its body, and it changes nothing between
  issuing a request and reading the body, so the pages of the trace are the pages that
  another handler can observe while this run is in flight. \<open>Detect_parsed\<close> marks the
  return of \<^verbatim>\<open>JSON.parse\<close> at line 156.
\<close>

datatype event = Detect_request string | Detect_parsed jsval | Iot_request jsnum

datatype outcome = Completed | Returned_early | Threw exn

record run =
  final :: page
  outcome :: outcome
  trace :: "(event \<times> page) list"

text \<open>The requests and marks of a run, without the pages.\<close>

definition events :: "run \<Rightarrow> event list" where
  "events r = map fst (trace r)"

text \<open>Lines 115 and 116, the entry of the handler.\<close>

definition enter :: "page \<Rightarrow> page" where
  "enter p = setStatus processing_html ''processing'' p"

text \<open>
  The test of line 119, \<^verbatim>\<open>!fileInput || !fileInput.files || fileInput.files.length === 0\<close>,
  and \<^verbatim>\<open>fileInput.files[0]\<close> when it is false.
\<close>

definition selected_file :: "env \<Rightarrow> string option" where
  "selected_file e =
     (case input_files e of
        None \<Rightarrow> None
      | Some None \<Rightarrow> None
      | Some (Some []) \<Rightarrow> None
      | Some (Some (f # fs)) \<Rightarrow> Some f)"

text \<open>Lines 125 to 133.\<close>

definition show_preview :: "env \<Rightarrow> string \<Rightarrow> page \<Rightarrow> page" where
  "show_preview e f p =
     (case preview p of
        None \<Rightarrow> p
      | Some im \<Rightarrow>
          (case object_url e f of
             None \<Rightarrow> log Log_preview_fail p
           | Some u \<Rightarrow> p\<lparr>preview := Some \<lparr>img_src = u, img_display = ''block''\<rparr>\<rparr>))"

text \<open>The outer \<^verbatim>\<open>catch\<close>, lines 163 to 168.\<close>

definition detect_failed :: "exn \<Rightarrow> page \<Rightarrow> page" where
  "detect_failed x p =
     (setStatus network_error_html ''error'' (log (Log_detect_fetch_error x) p))
       \<lparr>btn_disabled := False\<rparr>"

text \<open>Line 178; \<open>None\<close> is a TypeError raised while the template is evaluated.\<close>

definition render_meta :: "env \<Rightarrow> jsval \<Rightarrow> jsval \<Rightarrow> string option" where
  "render_meta e count risk =
     (case (if nullish count then Some ''N/A'' else to_string (num_to_str e) count) of
        None \<Rightarrow> None
      | Some c \<Rightarrow>
          (case (if nullish risk then Some ''N/A'' else to_string (num_to_str e) risk) of
             None \<Rightarrow> None
           | Some r \<Rightarrow> Some (''<b>Vehicles:</b> '' @ c @ '' &nbsp;&nbsp; <b>Risk:</b> '' @ r)))"

definition write_meta :: "env \<Rightarrow> jsval \<Rightarrow> jsval \<Rightarrow> page \<Rightarrow> page option" where
  "write_meta e count risk p =
     (case meta p of
        None \<Rightarrow> Some p
      | Some old \<Rightarrow> map_option (\<lambda>h. p\<lparr>meta := Some h\<rparr>) (render_meta e count risk))"

text \<open>Lines 180 to 188; the \<^verbatim>\<open>src\<close> setter converts its argument to a string.\<close>

definition write_annotated :: "env \<Rightarrow> jsval \<Rightarrow> page \<Rightarrow> page option" where
  "write_annotated e outImg p =
     (case annotated p of
        None \<Rightarrow> Some p
      | Some im \<Rightarrow>
          if truthy outImg then
            map_option (\<lambda>s. p\<lparr>annotated := Some \<lparr>img_src = s, img_display = ''block''\<rparr>\<rparr>)
              (to_string (num_to_str e) outImg)
          else Some (p\<lparr>annotated := Some (im\<lparr>img_display := ''none''\<rparr>)\<rparr>))"

text \<open>Line 195.\<close>

definition render_iot :: "env \<Rightarrow> jsval \<Rightarrow> string option" where
  "render_iot e iotResp =
     (case to_string (num_to_str e) (get_prop iotResp ''distance'') of
        None \<Rightarrow> None
      | Some d \<Rightarrow>
          (case to_string (num_to_str e) (get_prop iotResp ''alert'') of
             None \<Rightarrow> None
           | Some a \<Rightarrow>
               (case to_string (num_to_str e) (get_prop iotResp ''recommended_action'') of
                  None \<Rightarrow> None
                | Some r \<Rightarrow>
                    Some (''<b>Distance:</b> '' @ d @ '' cm &nbsp; <b>Alert:</b> '' @ a
                          @ '' &nbsp; <b>Action:</b> '' @ r))))"

text \<open>Lines 201 to 204: the refresh, whose exception is swallowed, and the re-enabling.\<close>

definition finish :: "env \<Rightarrow> (event \<times> page) list \<Rightarrow> page \<Rightarrow> run" where
  "finish e tr p =
     \<lparr>final = p\<lparr>thumbs := fst (refreshMetricsThumbnails (now e) (thumbs p)),
                 btn_disabled := False\<rparr>,
      outcome = Completed,
      trace = tr\<rparr>"

text \<open>Lines 191 to 199.\<close>

definition sensor_step :: "env \<Rightarrow> jsval \<Rightarrow> (event \<times> page) list \<Rightarrow> page \<Rightarrow> run" where
  "sensor_step e count tr p =
     (if count \<noteq> JNull \<and> iot p \<noteq> None then
        (case sensor_distance (num_to_str e) (str_to_num e) count of
           None \<Rightarrow> \<lparr>final = p, outcome = Threw Type_error, trace = tr\<rparr>
         | Some distance \<Rightarrow>
             (let tr' = tr @ [(Iot_request distance, p)];
                  (iotResp, logs) = callIot (iot_reply e distance);
                  p' = p\<lparr>console := console p @ logs\<rparr>
              in if truthy iotResp then
                   (case render_iot e iotResp of
                      None \<Rightarrow> \<lparr>final = p', outcome = Threw Type_error, trace = tr'\<rparr>
                    | Some h \<Rightarrow> finish e tr' (p'\<lparr>iot := Some h\<rparr>))
                 else finish e tr' (p'\<lparr>iot := Some iot_failed_html\<rparr>)))
      else finish e tr p)"

text \<open>
  Lines 171 to 188, after \<^verbatim>\<open>JSON.parse\<close> has returned \<open>json\<close>: the presentation of the
  detection result. Nothing here is inside a \<^verbatim>\<open>try\<close>: reading a property of \<^verbatim>\<open>null\<close>
  at line 172 and a failing string conversion raise a TypeError that nothing catches. The
  result is the page when the lines end and whether they ended by raising.
\<close>

definition present :: "env \<Rightarrow> jsval \<Rightarrow> page \<Rightarrow> page \<times> bool" where
  "present e json p0 =
     (let p1 = log (Log_detect_json json) p0 in
      if nullish json then (p1, True)
      else
        (let outImg = outImg_of json;
             count = count_of json;
             risk = risk_of json;
             p2 = setStatus completed_html ''ok'' p1
         in case write_meta e count risk p2 of
              None \<Rightarrow> (p2, True)
            | Some p3 \<Rightarrow>
                (case write_annotated e outImg p3 of
                   None \<Rightarrow> (p3, True)
                 | Some p4 \<Rightarrow> (p4, False))))"

text \<open>Lines 171 to 205.\<close>

definition after_detect :: "env \<Rightarrow> jsval \<Rightarrow> (event \<times> page) list \<Rightarrow> page \<Rightarrow> run" where
  "after_detect e json tr p0 =
     (case present e json p0 of
        (p, True) \<Rightarrow> \<lparr>final = p, outcome = Threw Type_error, trace = tr\<rparr>
      | (p4, False) \<Rightarrow> sensor_step e (count_of json) tr p4)"

text \<open>Lines 124 to 136: the preview, then the disabling of the trigger.\<close>

definition before_detect :: "env \<Rightarrow> string \<Rightarrow> page \<Rightarrow> page" where
  "before_detect e f p = (show_preview e f p)\<lparr>btn_disabled := True\<rparr>"

text \<open>The page on which the detection request is issued.\<close>

abbreviation started :: "env \<Rightarrow> string \<Rightarrow> page \<Rightarrow> page" where
  "started e f p \<equiv> before_detect e f (enter p)"

definition click_handler :: "env \<Rightarrow> page \<Rightarrow> run" where
  "click_handler e p =
     (let p1 = enter p in
      case selected_file e of
        None \<Rightarrow>
          \<lparr>final = setStatus choose_file_html ''warning'' p1,
           outcome = Returned_early,
           trace = []\<rparr>
      | Some f \<Rightarrow>
          (let p3 = before_detect e f p1;
               tr = [(Detect_request f, p3)]
           in case detect_reply e f of
                Transport_failure \<Rightarrow>
                  \<lparr>final = detect_failed Fetch_failed p3, outcome = Returned_early, trace = tr\<rparr>
              | Response st b \<Rightarrow>
                  if \<not> http_ok st then
                    \<lparr>final = (log (Log_detect_server_error st)
                                (setStatus (server_error_html st) ''error'' p3))
                              \<lparr>btn_disabled := False\<rparr>,
                     outcome = Returned_early,
                     trace = tr\<rparr>
                  else
                    (case b of
                       Unreadable \<Rightarrow>
                         \<lparr>final = detect_failed Body_unreadable p3,
                          outcome = Returned_early,
                          trace = tr\<rparr>
                     | Not_json \<Rightarrow>
                         \<lparr>final = (setStatus invalid_response_html ''error''
                                     (log Log_detect_not_json p3))
                                   \<lparr>btn_disabled := False\<rparr>,
                          outcome = Returned_early,
                          trace = tr\<rparr>
                     | Json json \<Rightarrow> after_detect e json (tr @ [(Detect_parsed json, p3)]) p3)))"

section \<open>Attaching the handlers (lines 85 to 207)\<close>

text \<open>
  A trigger as \<^verbatim>\<open>attachDetectHandlers\<close> treats it: its \<^verbatim>\<open>data-tv-attached\<close> attribute
  (\<open>None\<close>: not set) and the number of click listeners the routine has added to it. Each
  call of \<^verbatim>\<open>addEventListener\<close> passes a new function, so none is ever merged with an
  earlier one. The lookup of the binding's elements in lines 97 to 111 is taken not to
  raise.
\<close>

record trigger =
  tvAttached :: "string option"
  listeners :: nat

definition attach_one :: "trigger \<Rightarrow> trigger" where
  "attach_one btn =
     (if tvAttached btn = Some ''1'' then btn
      else btn\<lparr>tvAttached := Some ''1'', listeners := listeners btn + 1\<rparr>)"

definition attachDetectHandlers :: "trigger list \<Rightarrow> trigger list" where
  "attachDetectHandlers runButtons = map attach_one runButtons"

text \<open>A click calls every listener once, so it starts one run of the pipeline for each.\<close>

definition runs_on_click :: "trigger \<Rightarrow> nat" where
  "runs_on_click btn = listeners btn"

section \<open>Sample surroundings\<close>

text \<open>
  A page with every optional element and two thumbnails, and surroundings with one file
  selected, a detection answer with twelve vehicles and a sensor answer. The sample number
  printer prints the integer part in decimal; the samples only print naturals.
\<close>

definition sample_page :: page where
  "sample_page =
     \<lparr>btn_disabled = False, status_html = [], status_class = [],
      preview = Some \<lparr>img_src = [], img_display = ''none''\<rparr>,
      annotated = Some \<lparr>img_src = [], img_display = ''none''\<rparr>,
      meta = Some [], iot = Some [],
      thumbs = [Some ''/static/metrics/pr.png'', Some ''/static/metrics/f1.png?t=1''],
      console = []\<rparr>"

definition sample_detection :: jsval where
  "sample_detection =
     JObj [(''output_image'', JStr ''/static/out.jpg''), (''vehicle_count'', JNum 12),
           (''risk_level'', JStr ''HIGH'')]"

definition sample_sensor :: jsval where
  "sample_sensor =
     JObj [(''distance'', JNum 116), (''alert'', JStr ''SAFE''),
           (''recommended_action'', JStr ''None'')]"

definition sample_env :: env where
  "sample_env =
     \<lparr>input_files = Some (Some [''road.jpg'']),
      object_url = (\<lambda>f. Some (''blob:'' @ f)),
      detect_reply = (\<lambda>f. Response 200 (Json sample_detection)),
      iot_reply = (\<lambda>d. Response 200 (Json sample_sensor)),
      now = 1700000000000,
      num_to_str = (\<lambda>r. show_nat (nat \<lfloor>r\<rfloor>)),
      str_to_num = (\<lambda>s. NaN)\<rparr>"

text \<open>Variations of the sample: no file chosen; a detection body that is the JSON text
  \<^verbatim>\<open>null\<close>; a detection response whose vehicle count is an object with a property
  \<^verbatim>\<open>toString\<close>; a sensor endpoint that cannot be reached.\<close>

definition sample_env_no_file :: env where
  "sample_env_no_file = sample_env\<lparr>input_files := Some (Some [])\<rparr>"

definition sample_env_null_body :: env where
  "sample_env_null_body = sample_env\<lparr>detect_reply := (\<lambda>f. Response 200 (Json JNull))\<rparr>"

definition odd_detection :: jsval where
  "odd_detection = JObj [(''vehicle_count'', JObj [(''toString'', JNum 1)])]"

definition sample_env_odd_count :: env where
  "sample_env_odd_count = sample_env\<lparr>detect_reply := (\<lambda>f. Response 200 (Json odd_detection))\<rparr>"

definition sample_env_sensor_down :: env where
  "sample_env_sensor_down = sample_env\<lparr>iot_reply := (\<lambda>d. Transport_failure)\<rparr>"



definition odd_sensor :: jsval where
  "odd_sensor = JObj [(''distance'', JObj [(''toString'', JNum 1)])]"

definition sample_env_odd_sensor :: env where
  "sample_env_odd_sensor = sample_env\<lparr>iot_reply := (\<lambda>d. Response 200 (Json odd_sensor))\<rparr>"

definition sample_page_no_meta :: page where
  "sample_page_no_meta = sample_page\<lparr>meta := None\<rparr>"

section \<open>Alias resolution\<close>

lemma outImg_first_truthy:
  "outImg_of json = first_such truthy [''output_image'', ''annotated'', ''image''] json"
  by (simp add: outImg_of_def first_such_def js_or_def)

lemma count_first_not_nullish:
  "count_of json =
     first_such (\<lambda>v. \<not> nullish v) [''vehicle_count'', ''count'', ''vehicles''] json"
  by (simp add: count_of_def first_such_def js_coalesce_def)

lemma risk_first_truthy:
  "risk_of json = first_such truthy [''risk_level'', ''risk''] json"
  by (simp add: risk_of_def first_such_def js_or_def)

lemma count_prefers_vehicle_count:
  "\<not> nullish (get_prop json ''vehicle_count'') \<Longrightarrow>
     count_of json = get_prop json ''vehicle_count''"
  by (simp add: count_of_def js_coalesce_def)

text \<open>
  Claim C3, as stated, fails: a response whose \<^verbatim>\<open>output_image\<close> is present with the empty
  string and whose \<^verbatim>\<open>annotated\<close> is a path resolves its image to \<^verbatim>\<open>annotated\<close>, while
  the first present alias is \<^verbatim>\<open>output_image\<close>.
\<close>

theorem alias_first_present_counterexample:
  "outImg_of (JObj [(''output_image'', JStr []), (''annotated'', JStr ''a.png'')])
     = JStr ''a.png''
   \<and> first_present [''output_image'', ''annotated'', ''image'']
        (JObj [(''output_image'', JStr []), (''annotated'', JStr ''a.png'')])
     = JStr []"
  by (simp add: outImg_of_def first_present_def js_or_def has_prop_def)

text \<open>
  Claim C3, amended: each logical field is resolved by trying its aliases in the fixed
  order of the claim; for the image reference and the risk the first alias whose value is
  truthy wins (\<^verbatim>\<open>||\<close>: an absent, null, false, zero or empty value is passed over), for
  the vehicle count the first alias whose value is neither absent nor null wins
  (\<^verbatim>\<open>??\<close>); with no such alias the field is null. In particular, when
  \<^verbatim>\<open>vehicle_count\<close> is present and not null, it is used whatever \<^verbatim>\<open>count\<close> holds.
\<close>

theorem alias_resolution:
  "outImg_of json = first_such truthy [''output_image'', ''annotated'', ''image''] json
   \<and> count_of json =
       first_such (\<lambda>v. \<not> nullish v) [''vehicle_count'', ''count'', ''vehicles''] json
   \<and> risk_of json = first_such truthy [''risk_level'', ''risk''] json
   \<and> (\<not> nullish (get_prop json ''vehicle_count'') \<longrightarrow>
        count_of json = get_prop json ''vehicle_count'')"
  using outImg_first_truthy count_first_not_nullish risk_first_truthy
    count_prefers_vehicle_count
  by blast

theorem alias_resolution_witness:
  "\<not> nullish (get_prop (JObj [(''vehicle_count'', JNum 12), (''count'', JNum 7)])
                 ''vehicle_count'')
   \<and> count_of (JObj [(''vehicle_count'', JNum 12), (''count'', JNum 7)]) = JNum 12"
  using alias_resolution [of "JObj [(''vehicle_count'', JNum 12), (''count'', JNum 7)]"]
  by (simp add: first_such_def)

section \<open>The steps of a run\<close>

text \<open>What the presentation steps leave alone.\<close>

lemma write_meta_frame:
  assumes "write_meta e c r p = Some p'"
  shows "btn_disabled p' = btn_disabled p" and "iot p' = iot p"
    and "status_html p' = status_html p" and "status_class p' = status_class p"
    and "thumbs p' = thumbs p" and "preview p' = preview p"
    and "annotated p' = annotated p" and "console p' = console p"
  using assms by (auto simp: write_meta_def split: option.splits)

lemma write_meta_result:
  assumes "write_meta e c r p = Some p'"
  shows "meta p' = (case meta p of None \<Rightarrow> None | Some old \<Rightarrow> render_meta e c r)"
  using assms by (auto simp: write_meta_def split: option.splits)

lemma write_annotated_frame:
  assumes "write_annotated e v p = Some p'"
  shows "btn_disabled p' = btn_disabled p" and "iot p' = iot p"
    and "status_html p' = status_html p" and "status_class p' = status_class p"
    and "thumbs p' = thumbs p" and "preview p' = preview p"
    and "meta p' = meta p" and "console p' = console p"
  using assms by (auto simp: write_annotated_def split: option.splits if_splits)

lemma callIot_failure:
  "sensor_failure r \<Longrightarrow> fst (callIot r) = JNull"
  by (cases r) (auto split: body.splits)

text \<open>The sensor step: when it issues a request, and what a failed request leaves.\<close>

lemma sensor_step_skipped:
  "c = JNull \<or> iot p = None \<Longrightarrow> sensor_step e c tr p = finish e tr p"
  by (auto simp: sensor_step_def)

lemma sensor_step_raises:
  "c \<noteq> JNull \<Longrightarrow> iot p \<noteq> None \<Longrightarrow>
   sensor_distance (num_to_str e) (str_to_num e) c = None \<Longrightarrow>
     sensor_step e c tr p = \<lparr>final = p, outcome = Threw Type_error, trace = tr\<rparr>"
  by (simp add: sensor_step_def)

lemma sensor_step_issued:
  assumes "c \<noteq> JNull" and "iot p \<noteq> None"
    and "sensor_distance (num_to_str e) (str_to_num e) c = Some d"
  shows "trace (sensor_step e c tr p) = tr @ [(Iot_request d, p)]"
  using assms
  by (simp add: sensor_step_def finish_def Let_def split: prod.splits option.splits)

lemma sensor_step_failed:
  assumes "c \<noteq> JNull" and "iot p \<noteq> None"
    and "sensor_distance (num_to_str e) (str_to_num e) c = Some d"
    and "\<not> truthy (fst (callIot (iot_reply e d)))"
  shows "sensor_step e c tr p =
           finish e (tr @ [(Iot_request d, p)])
             (p\<lparr>console := console p @ snd (callIot (iot_reply e d)),
                iot := Some iot_failed_html\<rparr>)"
  using assms by (auto simp: sensor_step_def Let_def split: prod.splits)

lemma sensor_step_not_raised:
  assumes "c \<noteq> JNull" and "iot p \<noteq> None"
    and "\<forall>x. outcome (sensor_step e c tr p) \<noteq> Threw x"
  shows "\<exists>d. sensor_distance (num_to_str e) (str_to_num e) c = Some d"
  using assms by (cases "sensor_distance (num_to_str e) (str_to_num e) c")
    (simp_all add: sensor_step_raises)

text \<open>The presentation: what it leaves alone, and when it raises.\<close>

lemma present_raised:
  assumes "present e json p0 = (q, True)"
  shows "btn_disabled q = btn_disabled p0"
proof -
  let ?p2 = "setStatus completed_html ''ok'' (log (Log_detect_json json) p0)"
  show ?thesis
  proof (cases "write_meta e (count_of json) (risk_of json) ?p2")
    case None
    with assms show ?thesis
      by (auto simp: present_def Let_def log_def setStatus_def split: if_splits)
  next
    case (Some p3)
    with assms write_meta_frame(1) [OF Some] show ?thesis
      by (auto simp: present_def Let_def log_def setStatus_def
          split: if_splits option.splits)
  qed
qed

lemma present_null:
  "nullish json \<Longrightarrow> present e json p0 = (log (Log_detect_json json) p0, True)"
  by (simp add: present_def Let_def)

lemma present_frame:
  assumes "present e json p0 = (p4, False)"
  shows "btn_disabled p4 = btn_disabled p0" and "iot p4 = iot p0"
    and "thumbs p4 = thumbs p0" and "preview p4 = preview p0"
    and "status_html p4 = completed_html" and "status_class p4 = ''ok''"
    and "console p4 = console p0 @ [Log_detect_json json]"
    and "meta p4 =
           (case meta p0 of None \<Rightarrow> None
            | Some old \<Rightarrow> render_meta e (count_of json) (risk_of json))"
    and "\<not> nullish json"
proof -
  let ?p2 = "setStatus completed_html ''ok'' (log (Log_detect_json json) p0)"
  from assms have n: "\<not> nullish json"
    by (auto simp: present_def Let_def split: if_splits)
  from assms n obtain p3 where
    m: "write_meta e (count_of json) (risk_of json) ?p2 = Some p3"
    and a: "write_annotated e (outImg_of json) p3 = Some p4"
    by (auto simp: present_def Let_def split: option.splits)
  show "\<not> nullish json" by (rule n)
  show "btn_disabled p4 = btn_disabled p0"
    using write_meta_frame(1) [OF m] write_annotated_frame(1) [OF a]
    by (simp add: setStatus_def log_def)
  show "iot p4 = iot p0"
    using write_meta_frame(2) [OF m] write_annotated_frame(2) [OF a]
    by (simp add: setStatus_def log_def)
  show "thumbs p4 = thumbs p0"
    using write_meta_frame(5) [OF m] write_annotated_frame(5) [OF a]
    by (simp add: setStatus_def log_def)
  show "preview p4 = preview p0"
    using write_meta_frame(6) [OF m] write_annotated_frame(6) [OF a]
    by (simp add: setStatus_def log_def)
  show "status_html p4 = completed_html"
    using write_meta_frame(3) [OF m] write_annotated_frame(3) [OF a]
    by (simp add: setStatus_def log_def)
  show "status_class p4 = ''ok''"
    using write_meta_frame(4) [OF m] write_annotated_frame(4) [OF a]
    by (simp add: setStatus_def log_def)
  show "console p4 = console p0 @ [Log_detect_json json]"
    using write_meta_frame(8) [OF m] write_annotated_frame(8) [OF a]
    by (simp add: setStatus_def log_def)
  show "meta p4 =
          (case meta p0 of None \<Rightarrow> None
           | Some old \<Rightarrow> render_meta e (count_of json) (risk_of json))"
    using write_meta_result [OF m] write_annotated_frame(7) [OF a]
    by (simp add: setStatus_def log_def)
qed

lemma after_detect_presented:
  "present e json p0 = (p4, False) \<Longrightarrow>
     after_detect e json tr p0 = sensor_step e (count_of json) tr p4"
  by (simp add: after_detect_def)

lemma after_detect_raised:
  "present e json p0 = (q, True) \<Longrightarrow>
     after_detect e json tr p0 = \<lparr>final = q, outcome = Threw Type_error, trace = tr\<rparr>"
  by (simp add: after_detect_def)

text \<open>The handler, path by path.\<close>

lemma click_no_file:
  "selected_file e = None \<Longrightarrow>
     click_handler e p =
       \<lparr>final = setStatus choose_file_html ''warning'' (enter p),
        outcome = Returned_early, trace = []\<rparr>"
  by (simp add: click_handler_def Let_def)

lemma click_parsed:
  assumes "selected_file e = Some f" and "detect_reply e f = Response st (Json json)"
    and "http_ok st"
  shows "click_handler e p =
           after_detect e json
             [(Detect_request f, before_detect e f (enter p)),
              (Detect_parsed json, before_detect e f (enter p))]
             (before_detect e f (enter p))"
  using assms by (simp add: click_handler_def Let_def)

text \<open>
  The failures of the detection call that the handler catches: transport failure,
  non-success status, a body that cannot be read, a body that is not JSON.
\<close>

lemma click_detect_failed:
  assumes "selected_file e = Some f"
    and "\<forall>st json. http_ok st \<longrightarrow> detect_reply e f \<noteq> Response st (Json json)"
  shows "trace (click_handler e p) = [(Detect_request f, before_detect e f (enter p))]"
    and "outcome (click_handler e p) = Returned_early"
    and "\<not> btn_disabled (final (click_handler e p))"
    and "status_class (final (click_handler e p)) = ''error''"
proof -
  let ?r = "click_handler e p"
  have "trace ?r = [(Detect_request f, before_detect e f (enter p))]
        \<and> outcome ?r = Returned_early \<and> \<not> btn_disabled (final ?r)
        \<and> status_class (final ?r) = ''error''"
  proof (cases "detect_reply e f")
    case Transport_failure
    with assms(1) show ?thesis
      by (simp add: click_handler_def Let_def detect_failed_def setStatus_def)
  next
    case (Response st b)
    show ?thesis
    proof (cases "http_ok st")
      case False
      with assms(1) Response show ?thesis
        by (simp add: click_handler_def Let_def setStatus_def log_def)
    next
      case True
      with assms(2) Response have "\<forall>json. b \<noteq> Json json" by auto
      with assms(1) Response True show ?thesis
        by (cases b)
          (simp_all add: click_handler_def Let_def detect_failed_def setStatus_def log_def)
    qed
  qed
  then show "trace ?r = [(Detect_request f, before_detect e f (enter p))]"
    and "outcome ?r = Returned_early" and "\<not> btn_disabled (final ?r)"
    and "status_class (final ?r) = ''error''"
    by simp_all
qed

lemma before_detect_disabled: "btn_disabled (before_detect e f p)"
  by (simp add: before_detect_def)

lemma before_detect_frame:
  "iot (before_detect e f p) = iot p" "meta (before_detect e f p) = meta p"
  "annotated (before_detect e f p) = annotated p" "thumbs (before_detect e f p) = thumbs p"
  by (simp_all add: before_detect_def show_preview_def log_def split: option.splits)

lemma enter_frame:
  "iot (enter p) = iot p" "meta (enter p) = meta p" "annotated (enter p) = annotated p"
  "thumbs (enter p) = thumbs p" "btn_disabled (enter p) = btn_disabled p"
  "preview (enter p) = preview p" "console (enter p) = console p"
  by (simp_all add: enter_def setStatus_def)

lemma sensor_step_succeeded:
  assumes "c \<noteq> JNull" and "iot p \<noteq> None"
    and "sensor_distance (num_to_str e) (str_to_num e) c = Some d"
    and "truthy (fst (callIot (iot_reply e d)))"
    and "render_iot e (fst (callIot (iot_reply e d))) = Some h"
  shows "sensor_step e c tr p =
           finish e (tr @ [(Iot_request d, p)])
             (p\<lparr>console := console p @ snd (callIot (iot_reply e d)), iot := Some h\<rparr>)"
  using assms by (auto simp: sensor_step_def Let_def split: prod.splits)

lemma present_completes:
  assumes "\<not> nullish json"
    and "render_meta e (count_of json) (risk_of json) = Some h"
    and "to_string (num_to_str e) (outImg_of json) = Some s"
  shows "\<exists>p4. present e json p0 = (p4, False)"
  using assms
  by (auto simp: present_def Let_def write_meta_def write_annotated_def
      split: option.splits)

lemma present_meta_raises:
  assumes "\<not> nullish json" and "meta p0 \<noteq> None"
    and "render_meta e (count_of json) (risk_of json) = None"
  shows "\<exists>q. present e json p0 = (q, True)"
  using assms
  by (auto simp: present_def Let_def write_meta_def setStatus_def log_def
      split: option.splits)

lemma write_annotated_result:
  assumes "write_annotated e v p = Some p'"
  shows "annotated p' =
           (case annotated p of
              None \<Rightarrow> None
            | Some im \<Rightarrow>
                if truthy v then
                  map_option (\<lambda>s. \<lparr>img_src = s, img_display = ''block''\<rparr>)
                    (to_string (num_to_str e) v)
                else Some (im\<lparr>img_display := ''none''\<rparr>))"
  using assms by (auto simp: write_annotated_def split: option.splits if_splits)

lemma present_annotated:
  assumes "present e json p0 = (p4, False)"
  shows "annotated p4 =
           (case annotated p0 of
              None \<Rightarrow> None
            | Some im \<Rightarrow>
                if truthy (outImg_of json) then
                  map_option (\<lambda>s. \<lparr>img_src = s, img_display = ''block''\<rparr>)
                    (to_string (num_to_str e) (outImg_of json))
                else Some (im\<lparr>img_display := ''none''\<rparr>))"
proof -
  let ?p2 = "setStatus completed_html ''ok'' (log (Log_detect_json json) p0)"
  from assms have n: "\<not> nullish json"
    by (auto simp: present_def Let_def split: if_splits)
  from assms n obtain p3 where
    m: "write_meta e (count_of json) (risk_of json) ?p2 = Some p3"
    and a: "write_annotated e (outImg_of json) p3 = Some p4"
    by (auto simp: present_def Let_def split: option.splits)
  have "annotated p3 = annotated p0"
    using write_meta_frame(7) [OF m] by (simp add: setStatus_def log_def)
  with write_annotated_result [OF a] show ?thesis by simp
qed

section \<open>The paths of a run\<close>

text \<open>
  Every run takes one of six paths, told apart by the surroundings: no file; a detection
  call that fails in a way the handler catches; a parsed response whose presentation
  raises; a presented response without a sensor step; a vehicle count whose coercion to a
  number raises; a sensor request.
\<close>

lemma run_cases [case_names no_file detect_failed present_raised sensor_skipped
    coercion_raised sensor_issued]:
  obtains
    "selected_file e = None"
  | f where "selected_file e = Some f"
      and "\<forall>st json. http_ok st \<longrightarrow> detect_reply e f \<noteq> Response st (Json json)"
  | f st json q where "selected_file e = Some f"
      and "detect_reply e f = Response st (Json json)" and "http_ok st"
      and "present e json (started e f p) = (q, True)"
  | f st json p4 where "selected_file e = Some f"
      and "detect_reply e f = Response st (Json json)" and "http_ok st"
      and "present e json (started e f p) = (p4, False)"
      and "count_of json = JNull \<or> iot p = None"
  | f st json p4 where "selected_file e = Some f"
      and "detect_reply e f = Response st (Json json)" and "http_ok st"
      and "present e json (started e f p) = (p4, False)"
      and "count_of json \<noteq> JNull" and "iot p \<noteq> None"
      and "sensor_distance (num_to_str e) (str_to_num e) (count_of json) = None"
  | f st json p4 d where "selected_file e = Some f"
      and "detect_reply e f = Response st (Json json)" and "http_ok st"
      and "present e json (started e f p) = (p4, False)"
      and "count_of json \<noteq> JNull" and "iot p \<noteq> None"
      and "sensor_distance (num_to_str e) (str_to_num e) (count_of json) = Some d"
proof (cases "selected_file e")
  case None
  then show ?thesis by (rule that(1))
next
  case (Some f)
  show ?thesis
  proof (cases "\<exists>st json. http_ok st \<and> detect_reply e f = Response st (Json json)")
    case False
    then have "\<forall>st json. http_ok st \<longrightarrow> detect_reply e f \<noteq> Response st (Json json)"
      by blast
    with Some show ?thesis by (rule that(2))
  next
    case True
    then obtain st json where ok: "http_ok st"
      and rep: "detect_reply e f = Response st (Json json)"
      by blast
    obtain q b where pr: "present e json (started e f p) = (q, b)"
      by (cases "present e json (started e f p)")
    show ?thesis
    proof (cases b)
      case False
      with pr have pr': "present e json (started e f p) = (q, False)" by simp
      show ?thesis
      proof (cases "count_of json = JNull \<or> iot p = None")
        case True
        with Some rep ok pr' show ?thesis by (rule that(4))
      next
        case False
        then have c: "count_of json \<noteq> JNull" and i: "iot p \<noteq> None" by simp_all
        show ?thesis
        proof (cases "sensor_distance (num_to_str e) (str_to_num e) (count_of json)")
          case None
          with Some rep ok pr' c i show ?thesis by (rule that(5))
        next
          case (Some d)
          with \<open>selected_file e = Some f\<close> rep ok pr' c i show ?thesis by (rule that(6))
        qed
      qed
    next
      case True
      with pr have "present e json (started e f p) = (q, True)" by simp
      with Some rep ok show ?thesis by (rule that(3))
    qed
  qed
qed

lemma started_iot: "iot (started e f p) = iot p"
  by (simp add: before_detect_frame enter_frame)

lemma run_present_raised:
  assumes "selected_file e = Some f" and "detect_reply e f = Response st (Json json)"
    and "http_ok st" and "present e json (started e f p) = (q, True)"
  shows "click_handler e p =
           \<lparr>final = q, outcome = Threw Type_error,
            trace = [(Detect_request f, started e f p), (Detect_parsed json, started e f p)]\<rparr>"
  using assms by (simp add: click_parsed after_detect_raised)

lemma run_sensor_skipped:
  assumes "selected_file e = Some f" and "detect_reply e f = Response st (Json json)"
    and "http_ok st" and "present e json (started e f p) = (p4, False)"
    and "count_of json = JNull \<or> iot p = None"
  shows "click_handler e p =
           finish e [(Detect_request f, started e f p), (Detect_parsed json, started e f p)] p4"
proof -
  from assms(4) have "iot p4 = iot p"
    by (simp add: present_frame(2) started_iot)
  with assms(5) have "count_of json = JNull \<or> iot p4 = None" by simp
  with assms(1-4) show ?thesis
    by (simp add: click_parsed after_detect_presented sensor_step_skipped)
qed

lemma run_coercion_raised:
  assumes "selected_file e = Some f" and "detect_reply e f = Response st (Json json)"
    and "http_ok st" and "present e json (started e f p) = (p4, False)"
    and "count_of json \<noteq> JNull" and "iot p \<noteq> None"
    and "sensor_distance (num_to_str e) (str_to_num e) (count_of json) = None"
  shows "click_handler e p =
           \<lparr>final = p4, outcome = Threw Type_error,
            trace = [(Detect_request f, started e f p), (Detect_parsed json, started e f p)]\<rparr>"
proof -
  from assms(4) have "iot p4 = iot p"
    by (simp add: present_frame(2) started_iot)
  with assms(6) have "iot p4 \<noteq> None" by simp
  with assms(1-5,7) show ?thesis
    by (simp add: click_parsed after_detect_presented sensor_step_raises)
qed

lemma run_sensor_issued:
  assumes "selected_file e = Some f" and "detect_reply e f = Response st (Json json)"
    and "http_ok st" and "present e json (started e f p) = (p4, False)"
    and "count_of json \<noteq> JNull" and "iot p \<noteq> None"
    and "sensor_distance (num_to_str e) (str_to_num e) (count_of json) = Some d"
  shows "click_handler e p =
           sensor_step e (count_of json)
             [(Detect_request f, started e f p), (Detect_parsed json, started e f p)] p4"
    and "trace (click_handler e p) =
           [(Detect_request f, started e f p), (Detect_parsed json, started e f p),
            (Iot_request d, p4)]"
    and "iot p4 \<noteq> None"
proof -
  from assms(4) have "iot p4 = iot p"
    by (simp add: present_frame(2) started_iot)
  with assms(6) show i: "iot p4 \<noteq> None" by simp
  from assms(1-4) show eq: "click_handler e p =
           sensor_step e (count_of json)
             [(Detect_request f, started e f p), (Detect_parsed json, started e f p)] p4"
    by (simp add: click_parsed after_detect_presented)
  show "trace (click_handler e p) =
           [(Detect_request f, started e f p), (Detect_parsed json, started e f p),
            (Iot_request d, p4)]"
    unfolding eq using sensor_step_issued [OF assms(5) i assms(7)] by simp
qed

text \<open>The events of each path.\<close>

lemma events_no_file:
  "selected_file e = None \<Longrightarrow> events (click_handler e p) = []"
  by (simp add: events_def click_no_file)

lemma events_detect_failed:
  assumes "selected_file e = Some f"
    and "\<forall>st json. http_ok st \<longrightarrow> detect_reply e f \<noteq> Response st (Json json)"
  shows "events (click_handler e p) = [Detect_request f]"
  using click_detect_failed(1) [OF assms] by (simp add: events_def)

section \<open>Rounding to a double\<close>

text \<open>
  The exponent brackets its argument, integers below \<open>2^53\<close> in magnitude are doubles,
  and rounding does not cross a power of two.
\<close>

lemma round_half_even_int: "round_half_even (of_int j) = j"
  by (simp add: round_half_even_def)

lemma pow2_neg: "pow2 (- int n) = 1 / of_int (2 ^ n)"
  by (cases "n = 0") (simp_all add: pow2_def)

lemma exponent_int:
  assumes "k \<noteq> 0"
  shows "exponent (of_int k) = bitlen \<bar>k\<bar> - 1"
proof -
  have "\<bar>of_int k :: rat\<bar> = of_int \<bar>k\<bar>" by simp
  moreover have "1 \<le> (of_int \<bar>k\<bar> :: rat)"
  proof -
    from assms have "1 \<le> \<bar>k\<bar>" by simp
    then show ?thesis by (simp only: of_int_1_le_iff)
  qed
  ultimately show ?thesis by (simp add: exponent_def del: of_int_abs)
qed

lemma bitlen_small:
  assumes "0 < a" and "a < 2 ^ 53"
  shows "1 \<le> bitlen a" and "bitlen a \<le> 53"
proof -
  from bitlen_bounds [OF assms(1)]
  have lo: "2 ^ nat (bitlen a - 1) \<le> a" and hi: "a < 2 ^ nat (bitlen a)" by simp_all
  show "1 \<le> bitlen a"
  proof (rule ccontr)
    assume "\<not> 1 \<le> bitlen a"
    then have "nat (bitlen a) = 0" by simp
    with hi assms(1) show False by simp
  qed
  from lo assms(2) have "(2::int) ^ nat (bitlen a - 1) < 2 ^ 53" by simp
  then have "nat (bitlen a - 1) < 53" by (simp only: power_strict_increasing_iff)
  then show "bitlen a \<le> 53" by simp
qed

lemma to_double_int:
  assumes "\<bar>k\<bar> < 2 ^ 53"
  shows "to_double (of_int k) = Fin (of_int k)"
proof (cases "k = 0")
  case True
  then show ?thesis by (simp add: to_double_def)
next
  case False
  then have pos: "0 < \<bar>k\<bar>" by simp
  note b = bitlen_small [OF pos assms]
  define n where "n = nat (53 - bitlen \<bar>k\<bar>)"
  have e: "exponent (of_int k) = bitlen \<bar>k\<bar> - 1" by (rule exponent_int [OF False])
  have "max (exponent (of_int k)) (- 1022) - 52 = - int n"
    using b by (simp add: e n_def)
  then have u: "ulp (of_int k) = 1 / of_int (2 ^ n)"
    by (simp only: ulp_def pow2_neg)
  have q: "(of_int k :: rat) / ulp (of_int k) = of_int (k * 2 ^ n)"
    by (simp add: u)
  have y: "of_int (round_half_even (of_int k / ulp (of_int k))) * ulp (of_int k)
             = (of_int k :: rat)"
    by (simp only: q round_half_even_int) (simp add: u)
  have "\<not> 1024 \<le> exponent (of_int k)" using b by (simp add: e)
  with False show ?thesis
    by (simp add: to_double_def Let_def y del: of_int_mult of_int_power)
qed


lemma exponent_bounds:
  assumes "x \<noteq> 0"
  shows "pow2 (exponent x) \<le> \<bar>x\<bar>" and "\<bar>x\<bar> < pow2 (exponent x + 1)"
proof -
  define a where "a = \<bar>x\<bar>"
  from assms have apos: "0 < a" by (simp add: a_def)
  have "pow2 (exponent x) \<le> a \<and> a < pow2 (exponent x + 1)"
  proof (cases "1 \<le> a")
    case True
    define m where "m = \<lfloor>a\<rfloor>"
    from True have mpos: "0 < m" by (simp add: m_def)
    from bitlen_bounds [OF mpos]
    have lo: "2 ^ nat (bitlen m - 1) \<le> m" and hi: "m < 2 ^ nat (bitlen m)" by simp_all
    have b1: "1 \<le> bitlen m"
    proof (rule ccontr)
      assume "\<not> 1 \<le> bitlen m"
      then have "nat (bitlen m) = 0" by simp
      with hi mpos show False by simp
    qed
    have e: "exponent x = bitlen m - 1"
      using True by (simp add: exponent_def a_def m_def)
    have "pow2 (exponent x) = of_int (2 ^ nat (bitlen m - 1))"
      using b1 by (simp add: e pow2_def)
    also have "\<dots> \<le> of_int m" using lo by (simp only: of_int_le_iff)
    also have "\<dots> \<le> a" by (simp add: m_def)
    finally have l: "pow2 (exponent x) \<le> a" .
    from hi have "m + 1 \<le> 2 ^ nat (bitlen m)" by simp
    then have "(of_int (m + 1) :: rat) \<le> of_int (2 ^ nat (bitlen m))"
      by (simp only: of_int_le_iff)
    moreover have "a < of_int (m + 1)"
      unfolding m_def using floor_correct [of a] by blast
    moreover have "pow2 (exponent x + 1) = of_int (2 ^ nat (bitlen m))"
      using b1 by (simp add: e pow2_def)
    ultimately have "a < pow2 (exponent x + 1)" by simp
    with l show ?thesis by simp
  next
    case False
    define c where "c = \<lceil>1 / a\<rceil>"
    define m where "m = c - 1"
    from False apos have inv: "1 < 1 / a" by simp
    then have "1 < c" by (simp add: c_def less_ceiling_iff)
    then have mpos: "0 < m" by (simp add: m_def)
    from bitlen_bounds [OF mpos]
    have lo: "2 ^ nat (bitlen m - 1) \<le> m" and hi: "m < 2 ^ nat (bitlen m)" by simp_all
    have b1: "1 \<le> bitlen m"
    proof (rule ccontr)
      assume "\<not> 1 \<le> bitlen m"
      then have "nat (bitlen m) = 0" by simp
      with hi mpos show False by simp
    qed
    have e: "exponent x = - bitlen m"
      using False by (simp add: exponent_def a_def m_def c_def)
    have mlt: "of_int m < 1 / a"
      unfolding m_def c_def by (simp add: ceiling_correct)
    have cge: "1 / a \<le> of_int (m + 1)"
      unfolding m_def c_def by simp
    have p: "(0::rat) < of_int (2 ^ nat (bitlen m))" by simp
    from hi have "m + 1 \<le> 2 ^ nat (bitlen m)" by simp
    then have "(of_int (m + 1) :: rat) \<le> of_int (2 ^ nat (bitlen m))"
      by (simp only: of_int_le_iff)
    with cge have "1 / a \<le> of_int (2 ^ nat (bitlen m))" by simp
    with apos p have "1 / of_int (2 ^ nat (bitlen m)) \<le> a"
      by (simp add: field_simps)
    moreover have "pow2 (exponent x) = 1 / of_int (2 ^ nat (bitlen m))"
      using b1 by (simp add: e pow2_def)
    ultimately have l: "pow2 (exponent x) \<le> a" by simp
    have q: "(0::rat) < of_int (2 ^ nat (bitlen m - 1))" by simp
    from lo have "(of_int (2 ^ nat (bitlen m - 1)) :: rat) \<le> of_int m"
      by (simp only: of_int_le_iff)
    from this mlt have "of_int (2 ^ nat (bitlen m - 1)) < 1 / a"
      by (rule le_less_trans)
    with apos q have u: "a < 1 / of_int (2 ^ nat (bitlen m - 1))"
      by (simp add: field_simps)
    have "pow2 (exponent x + 1) = 1 / of_int (2 ^ nat (bitlen m - 1))"
    proof (cases "bitlen m = 1")
      case True
      then show ?thesis by (simp add: e pow2_def)
    next
      case False
      with b1 have "- bitlen m + 1 < 0" by simp
      moreover have "nat (- (- bitlen m + 1)) = nat (bitlen m - 1)" by simp
      ultimately show ?thesis by (simp add: e pow2_def)
    qed
    with u have "a < pow2 (exponent x + 1)" by simp
    with l show ?thesis by simp
  qed
  then show "pow2 (exponent x) \<le> \<bar>x\<bar>" and "\<bar>x\<bar> < pow2 (exponent x + 1)"
    by (simp_all add: a_def)
qed


lemma round_half_even_lower: "of_int N \<le> q \<Longrightarrow> N \<le> round_half_even q"
proof -
  assume "of_int N \<le> q"
  then have "N \<le> \<lfloor>q\<rfloor>" by (simp add: le_floor_iff)
  then show ?thesis by (simp add: round_half_even_def Let_def)
qed

lemma round_half_even_upper: "q \<le> of_int N \<Longrightarrow> round_half_even q \<le> N"
proof -
  assume a: "q \<le> of_int N"
  then have f: "\<lfloor>q\<rfloor> \<le> N" by (simp add: floor_le_iff)
  show ?thesis
  proof (cases "\<lfloor>q\<rfloor> = N")
    case True
    with a have "q - of_int \<lfloor>q\<rfloor> \<le> 0" by simp
    then have "q - of_int \<lfloor>q\<rfloor> < 1 / 2" by linarith
    with True show ?thesis by (simp add: round_half_even_def Let_def)
  next
    case False
    with f have "\<lfloor>q\<rfloor> + 1 \<le> N" by simp
    then show ?thesis by (simp add: round_half_even_def Let_def)
  qed
qed

lemma pow2_pos: "0 < pow2 e"
  by (simp add: pow2_def)

lemma pow2_nat: "0 \<le> e \<Longrightarrow> pow2 e = 2 ^ nat e"
  by (simp add: pow2_def)

lemma pow2_shift:
  assumes "0 \<le> e"
  shows "2 ^ 52 * pow2 (e - 52) = pow2 e"
proof (cases "52 \<le> e")
  case True
  then have "nat e = 52 + nat (e - 52)" by simp
  then have "(2::rat) ^ nat e = 2 ^ 52 * 2 ^ nat (e - 52)"
    by (simp only: power_add)
  with True assms show ?thesis by (simp add: pow2_def)
next
  case False
  define n where "n = nat (52 - e)"
  from False assms have "52 = nat e + n" by (simp add: n_def)
  then have eq: "(2::rat) ^ 52 = 2 ^ nat e * 2 ^ n"
    by (simp only: power_add)
  from False have p: "pow2 (e - 52) = 1 / 2 ^ n"
    by (simp add: pow2_def n_def)
  have "2 ^ 52 * pow2 (e - 52) = (2 ^ nat e * 2 ^ n) * (1 / 2 ^ n)"
    by (simp only: eq p)
  also have "\<dots> = 2 ^ nat e" by simp
  also have "\<dots> = pow2 e" using assms by (simp add: pow2_nat)
  finally show ?thesis .
qed

lemma exponent_ge:
  assumes "2 ^ j \<le> \<bar>x\<bar>"
  shows "int j \<le> exponent x"
proof (rule ccontr)
  assume "\<not> int j \<le> exponent x"
  then have lt: "exponent x + 1 \<le> int j" by simp
  have "x \<noteq> 0"
  proof
    assume "x = 0"
    with assms have "(2::rat) ^ j \<le> 0" by simp
    moreover have "(0::rat) < 2 ^ j" by simp
    ultimately show False by linarith
  qed
  from exponent_bounds(2) [OF this] have up: "\<bar>x\<bar> < pow2 (exponent x + 1)" .
  have "pow2 (exponent x + 1) \<le> 2 ^ j"
  proof (cases "0 \<le> exponent x + 1")
    case True
    with lt have "nat (exponent x + 1) \<le> j" by simp
    then have "(2::rat) ^ nat (exponent x + 1) \<le> 2 ^ j"
      by (simp only: power_increasing_iff)
    with True show ?thesis by (simp add: pow2_nat)
  next
    case False
    then have "pow2 (exponent x + 1) = 1 / 2 ^ nat (- (exponent x + 1))"
      by (simp add: pow2_def)
    also have "\<dots> \<le> 1" by simp
    also have "\<dots> \<le> (2::rat) ^ j" by simp
    finally show ?thesis .
  qed
  with up assms show False by simp
qed

lemma to_double_above:
  assumes "2 ^ j \<le> x"
  shows "to_double x = PInf \<or> (\<exists>y. to_double x = Fin y \<and> 2 ^ j \<le> y)"
proof -
  from assms have pos: "0 < x" by (rule less_le_trans [rotated]) simp
  then have ax: "\<bar>x\<bar> = x" and nz: "x \<noteq> 0" by simp_all
  define e where "e = exponent x"
  from exponent_ge [of j x] assms ax have ej: "int j \<le> e" by (simp add: e_def)
  then have e0: "0 \<le> e" by simp
  have u: "ulp x = pow2 (e - 52)" using e0 by (simp add: ulp_def e_def)
  from exponent_bounds(1) [OF nz] ax have "pow2 e \<le> x" by (simp add: e_def)
  with pow2_shift [OF e0] have "2 ^ 52 * pow2 (e - 52) \<le> x" by simp
  then have "of_int (2 ^ 52) \<le> x / ulp x"
    using pow2_pos [of "e - 52"] by (simp add: u field_simps)
  then have "2 ^ 52 \<le> round_half_even (x / ulp x)" by (rule round_half_even_lower)
  then have "(of_int (2 ^ 52) :: rat) \<le> of_int (round_half_even (x / ulp x))"
    by (simp only: of_int_le_iff)
  then have "of_int (2 ^ 52) * pow2 (e - 52)
               \<le> of_int (round_half_even (x / ulp x)) * pow2 (e - 52)"
    using pow2_pos [of "e - 52"] by (simp only: mult_le_cancel_right) simp
  with pow2_shift [OF e0]
  have "pow2 e \<le> of_int (round_half_even (x / ulp x)) * ulp x" by (simp add: u)
  moreover have "2 ^ j \<le> pow2 e"
  proof -
    from ej e0 have "j \<le> nat e" by simp
    then have "(2::rat) ^ j \<le> 2 ^ nat e" by (simp only: power_increasing_iff)
    with e0 show ?thesis by (simp add: pow2_nat)
  qed
  ultimately have "2 ^ j \<le> of_int (round_half_even (x / ulp x)) * ulp x" by simp
  with pos nz show ?thesis by (simp add: to_double_def Let_def)
qed

lemma to_double_below:
  assumes "x \<le> - (2 ^ j)"
  shows "to_double x = NInf \<or> (\<exists>y. to_double x = Fin y \<and> y \<le> - (2 ^ j))"
proof -
  have "(0::rat) < 2 ^ j" by simp
  with assms have neg: "x < 0" by linarith
  then have ax: "\<bar>x\<bar> = - x" and nz: "x \<noteq> 0" by simp_all
  define e where "e = exponent x"
  from assms ax have "2 ^ j \<le> \<bar>x\<bar>" by simp
  from exponent_ge [OF this] have ej: "int j \<le> e" by (simp add: e_def)
  then have e0: "0 \<le> e" by simp
  have u: "ulp x = pow2 (e - 52)" using e0 by (simp add: ulp_def e_def)
  from exponent_bounds(1) [OF nz] ax have "x \<le> - pow2 e" by (simp add: e_def)
  with pow2_shift [OF e0] have "x \<le> - (2 ^ 52) * pow2 (e - 52)" by simp
  then have "x / ulp x \<le> of_int (- (2 ^ 52))"
    using pow2_pos [of "e - 52"] by (simp add: u field_simps)
  then have "round_half_even (x / ulp x) \<le> - (2 ^ 52)" by (rule round_half_even_upper)
  then have "(of_int (round_half_even (x / ulp x)) :: rat) \<le> of_int (- (2 ^ 52))"
    by (simp only: of_int_le_iff)
  then have "of_int (round_half_even (x / ulp x)) * pow2 (e - 52)
               \<le> of_int (- (2 ^ 52)) * pow2 (e - 52)"
    using pow2_pos [of "e - 52"] by (simp only: mult_le_cancel_right) simp
  with pow2_shift [OF e0]
  have "of_int (round_half_even (x / ulp x)) * ulp x \<le> - pow2 e" by (simp add: u)
  moreover have "2 ^ j \<le> pow2 e"
  proof -
    from ej e0 have "j \<le> nat e" by simp
    then have "(2::rat) ^ j \<le> 2 ^ nat e" by (simp only: power_increasing_iff)
    with e0 show ?thesis by (simp add: pow2_nat)
  qed
  ultimately have "of_int (round_half_even (x / ulp x)) * ulp x \<le> - (2 ^ j)" by simp
  with neg nz show ?thesis by (simp add: to_double_def Let_def)
qed

text \<open>A finite double is below \<open>2^1024\<close> in magnitude; a number beyond rounds to an infinity.\<close>

lemma to_double_finite:
  assumes "to_double x = Fin y"
  shows "\<bar>y\<bar> < 2 ^ 1024"
proof (cases "y = 0")
  case True
  then show ?thesis by simp
next
  case False
  with assms have "x \<noteq> 0" by (auto simp: to_double_def)
  with assms have "\<not> 1024 \<le> exponent y"
    by (auto simp: to_double_def Let_def split: if_splits)
  then have "nat (exponent y + 1) \<le> 1024" by simp
  then have le: "(2::rat) ^ nat (exponent y + 1) \<le> 2 ^ 1024"
    by (simp only: power_increasing_iff)
  show ?thesis
  proof (cases "0 \<le> exponent y + 1")
    case True
    from exponent_bounds(2) [OF False] pow2_nat [OF True]
    have "\<bar>y\<bar> < 2 ^ nat (exponent y + 1)" by simp
    from this le show ?thesis by (rule less_le_trans)
  next
    case False
    then have "exponent y + 1 = - int (nat (- (exponent y + 1)))" by simp
    then have "pow2 (exponent y + 1) = 1 / of_int (2 ^ nat (- (exponent y + 1)))"
      by (metis pow2_neg)
    also have "\<dots> \<le> 1" by simp
    finally have "pow2 (exponent y + 1) \<le> 1" .
    with exponent_bounds(2) [OF \<open>y \<noteq> 0\<close>] have "\<bar>y\<bar> < 1" by simp
    also have "(1::rat) \<le> 2 ^ 1024" by (rule one_le_power) simp
    finally show ?thesis .
  qed
qed

lemma to_double_overflow:
  assumes "2 ^ 1024 \<le> x"
  shows "to_double x = PInf"
proof -
  from to_double_above [OF assms]
  consider "to_double x = PInf" | y where "to_double x = Fin y" "2 ^ 1024 \<le> y" by blast
  then show ?thesis
  proof cases
    case 1
    then show ?thesis .
  next
    case 2
    from to_double_finite [OF 2(1)] 2(2) show ?thesis by simp
  qed
qed

lemma to_double_underflow:
  assumes "x \<le> - (2 ^ 1024)"
  shows "to_double x = NInf"
proof -
  from to_double_below [OF assms]
  consider "to_double x = NInf" | y where "to_double x = Fin y" "y \<le> - (2 ^ 1024)" by blast
  then show ?thesis
  proof cases
    case 1
    then show ?thesis .
  next
    case 2
    from to_double_finite [OF 2(1)] 2(2) show ?thesis by simp
  qed
qed

section \<open>The derived distance\<close>

text \<open>Where the arithmetic of line 192 is exact: integer counts of moderate size.\<close>

lemma derive_distance_exact:
  assumes "\<bar>k\<bar> < 2 ^ 52 - 70"
  shows "derive_distance (Fin (of_int k)) = Fin (of_int (max 5 (140 - 2 * k)))"
proof -
  from assms have a: "\<bar>k * 2\<bar> < 2 ^ 53" and b: "\<bar>140 - k * 2\<bar> < 2 ^ 53" by simp_all
  have "js_mul (Fin (of_int k)) (Fin 2) = to_double (of_int (k * 2))" by simp
  also have "\<dots> = Fin (of_int (k * 2))" by (rule to_double_int [OF a])
  finally have m: "js_mul (Fin (of_int k)) (Fin 2) = Fin (of_int (k * 2))" .
  have "js_sub (Fin 140) (Fin (of_int (k * 2))) = to_double (of_int (140 - k * 2))" by simp
  also have "\<dots> = Fin (of_int (140 - k * 2))" by (rule to_double_int [OF b])
  finally have s: "js_sub (Fin 140) (Fin (of_int (k * 2))) = Fin (of_int (140 - k * 2))" .
  have r: "math_round (Fin (of_int (140 - k * 2))) = Fin (of_int (140 - k * 2))"
  proof -
    have "\<lfloor>(of_int (140 - k * 2) :: rat) + 1 / 2\<rfloor> = 140 - k * 2" by linarith
    then show ?thesis by (simp only: math_round.simps)
  qed
  have x: "math_max (Fin 5) (Fin (of_int (140 - k * 2))) = Fin (of_int (max 5 (140 - k * 2)))"
    by (simp add: max_def)
  show ?thesis
    unfolding derive_distance_def m s r x by (simp add: mult.commute)
qed

text \<open>
  Beyond that size a count is large and positive: whatever the roundings do, the
  difference stays far below 5, and the distance is 5.
\<close>

lemma derive_distance_large:
  assumes "c = PInf \<or> (\<exists>y. c = Fin y \<and> 2 ^ 51 \<le> y)"
  shows "derive_distance c = Fin 5"
proof -
  have low: "math_max (Fin 5) (math_round (js_sub (Fin 140) d)) = Fin 5"
    if "d = PInf \<or> (\<exists>y. d = Fin y \<and> 2 ^ 52 \<le> y)" for d
  proof -
    from that consider "d = PInf" | y where "d = Fin y" "2 ^ 52 \<le> y" by blast
    then show ?thesis
    proof cases
      case 1
      then show ?thesis by simp
    next
      case 2
      from 2(2) have "140 - y \<le> - (2 ^ 51)" by simp
      from to_double_below [OF this]
      consider "to_double (140 - y) = NInf"
        | w where "to_double (140 - y) = Fin w" "w \<le> - (2 ^ 51)"
        by blast
      then show ?thesis
      proof cases
        case 1
        with 2(1) show ?thesis by simp
      next
        case 2
        from 2(2) have "w + 1 / 2 < 5" by simp
        then have "\<lfloor>w + 1 / 2\<rfloor> < 5" by (simp only: floor_less_iff)
        then have "max 5 (rat_of_int \<lfloor>w + 1 / 2\<rfloor>) = 5" by simp
        with 2(1) \<open>d = Fin y\<close> show ?thesis by simp
      qed
    qed
  qed
  from assms consider "c = PInf" | y where "c = Fin y" "2 ^ 51 \<le> y" by blast
  then show ?thesis
  proof cases
    case 1
    then have "js_mul c (Fin 2) = PInf" by simp
    with low [of PInf] show ?thesis by (simp add: derive_distance_def)
  next
    case 2
    from 2(2) have "2 ^ 52 \<le> y * 2" by simp
    from to_double_above [OF this] 2(1)
    have "js_mul c (Fin 2) = PInf \<or> (\<exists>z. js_mul c (Fin 2) = Fin z \<and> 2 ^ 52 \<le> z)"
      by simp
    from low [OF this] show ?thesis by (simp add: derive_distance_def)
  qed
qed

text \<open>Every integer count above \<open>70 - 2^52\<close>, however large.\<close>

lemma sensor_distance_integer:
  assumes "70 - 2 ^ 52 < k"
  shows "sensor_distance ns sn (JNum (of_int k)) = Some (Fin (of_int (max 5 (140 - 2 * k))))"
proof (cases "k < 2 ^ 51")
  case True
  with assms have s: "\<bar>k\<bar> < 2 ^ 52 - 70" by simp
  then have "\<bar>k\<bar> < 2 ^ 53" by simp
  then have "to_double (of_int k) = Fin (of_int k)" by (rule to_double_int)
  then show ?thesis
    by (simp add: sensor_distance_def derive_distance_exact [OF s])
next
  case False
  then have "(2::int) ^ 51 \<le> k" by simp
  then have "(of_int (2 ^ 51) :: rat) \<le> of_int k" by (simp only: of_int_le_iff)
  then have "(2::rat) ^ 51 \<le> of_int k" by simp
  from to_double_above [OF this]
  have "derive_distance (to_double (of_int k)) = Fin 5" by (rule derive_distance_large)
  moreover from False have "max 5 (140 - 2 * k) = 5" by simp
  ultimately show ?thesis by (simp add: sensor_distance_def)
qed


lemma to_double_12: "to_double 12 = Fin 12"
  using to_double_int [of 12] by simp

text \<open>
  Outside that range line 192 gives what double arithmetic gives: for the count \<open>-2^54\<close>
  the difference \<open>2^55 + 140\<close> lies halfway between two doubles and is rounded to
  \<open>2^55 + 144\<close>; for a count of \<open>-2^1023\<close> or below, such as \<^verbatim>\<open>-1e308\<close>, the product
  is \<^verbatim>\<open>-Infinity\<close> and the distance \<^verbatim>\<open>Infinity\<close>.
\<close>

lemma derive_distance_halfway:
  "derive_distance (to_double (- (2 ^ 54))) = Fin 36028797018964112"
  by code_simp

lemma derive_distance_infinite:
  assumes "c = NInf \<or> (\<exists>y. c = Fin y \<and> y \<le> - (2 ^ 1023))"
  shows "derive_distance c = PInf"
proof -
  from assms consider "c = NInf" | y where "c = Fin y" "y \<le> - (2 ^ 1023)" by blast
  then show ?thesis
  proof cases
    case 1
    then show ?thesis by (simp add: derive_distance_def)
  next
    case 2
    from 2(2) have "y * 2 \<le> - (2 ^ 1024)" by simp
    then have "to_double (y * 2) = NInf" by (rule to_double_underflow)
    with 2(1) show ?thesis by (simp add: derive_distance_def)
  qed
qed

lemma sensor_distance_infinite:
  "sensor_distance ns sn (JNum (- (10 ^ 308))) = Some PInf"
proof -
  have "(2::int) ^ 1023 \<le> 10 ^ 308" by simp
  then have "(of_int (2 ^ 1023) :: rat) \<le> of_int (10 ^ 308)" by (simp only: of_int_le_iff)
  then have "- (10 ^ 308 :: rat) \<le> - (2 ^ 1023)" by simp
  from to_double_below [OF this]
  have "derive_distance (to_double (- (10 ^ 308))) = PInf"
    by (rule derive_distance_infinite)
  then show ?thesis by (simp add: sensor_distance_def)
qed

section \<open>The sample runs\<close>

lemma sample_started:
  "started sample_env ''road.jpg'' sample_page =
     sample_page
       \<lparr>btn_disabled := True, status_html := processing_html, status_class := ''processing'',
        preview := Some \<lparr>img_src = ''blob:road.jpg'', img_display = ''block''\<rparr>\<rparr>"
  by (simp add: before_detect_def enter_def setStatus_def show_preview_def sample_page_def
      sample_env_def)

lemma sample_count: "count_of sample_detection = JNum 12"
  by (simp add: count_of_def sample_detection_def js_coalesce_def)

lemma sample_outImg: "outImg_of sample_detection = JStr ''/static/out.jpg''"
  by (simp add: outImg_of_def sample_detection_def js_or_def)

lemma sample_risk: "risk_of sample_detection = JStr ''HIGH''"
  by (simp add: risk_of_def sample_detection_def js_or_def)

lemma sample_present_any:
  assumes "num_to_str e = num_to_str sample_env"
  shows "\<exists>p4. present e sample_detection p0 = (p4, False)"
proof (rule present_completes)
  show "\<not> nullish sample_detection" by (simp add: sample_detection_def)
  show "render_meta e (count_of sample_detection) (risk_of sample_detection)
          = Some (''<b>Vehicles:</b> 12 &nbsp;&nbsp; <b>Risk:</b> HIGH'')"
    by (simp add: render_meta_def sample_count sample_risk assms sample_env_def
        to_double_12 show_nat.simps digit_char_def)
  show "to_string (num_to_str e) (outImg_of sample_detection) = Some ''/static/out.jpg''"
    by (simp add: sample_outImg)
qed

lemma sample_present:
  "\<exists>p4. present sample_env sample_detection (started sample_env ''road.jpg'' sample_page)
          = (p4, False)"
  by (rule sample_present_any) simp

lemma sample_distance:
  "sensor_distance ns sn (count_of sample_detection) = Some (Fin 116)"
  using sensor_distance_integer [of 12 ns sn] by (simp add: sample_count)

lemma sample_selected: "selected_file sample_env = Some ''road.jpg''"
  by (simp add: selected_file_def sample_env_def)

lemma sample_reply:
  "detect_reply sample_env ''road.jpg'' = Response 200 (Json sample_detection)"
  by (simp add: sample_env_def)

lemma sample_events:
  "events (click_handler sample_env sample_page) =
     [Detect_request ''road.jpg'', Detect_parsed sample_detection, Iot_request (Fin 116)]"
proof -
  obtain p4 where
    "present sample_env sample_detection (started sample_env ''road.jpg'' sample_page)
       = (p4, False)"
    using sample_present by blast
  from run_sensor_issued(2) [OF sample_selected sample_reply _ this _ _ sample_distance]
  show ?thesis
    by (simp add: events_def http_ok_def sample_count sample_page_def)
qed

lemma sample_outcome: "outcome (click_handler sample_env sample_page) = Completed"
proof -
  obtain p4 where
    p: "present sample_env sample_detection (started sample_env ''road.jpg'' sample_page)
       = (p4, False)"
    using sample_present by blast
  have c: "count_of sample_detection \<noteq> JNull" by (simp add: sample_count)
  have i0: "iot sample_page \<noteq> None" by (simp add: sample_page_def)
  have ok: "http_ok 200" by (simp add: http_ok_def)
  note issued = run_sensor_issued [OF sample_selected sample_reply ok p c i0 sample_distance]
  have r: "callIot (iot_reply sample_env (Fin 116)) = (sample_sensor, [])"
    by (simp add: sample_env_def http_ok_def)
  have t: "truthy (fst (callIot (iot_reply sample_env (Fin 116))))"
    by (simp add: r sample_sensor_def)
  obtain h where h: "render_iot sample_env (fst (callIot (iot_reply sample_env (Fin 116)))) = Some h"
    by (simp add: r render_iot_def sample_sensor_def)
  show ?thesis
    unfolding issued(1)
    by (simp add: sensor_step_succeeded [OF c issued(3) sample_distance t h] finish_def)
qed

lemma sample_iot: "iot sample_page = Some []"
  by (simp add: sample_page_def)

section \<open>Claim C2: the distance sent to the sensor endpoint\<close>












section \<open>Claim C4: no file selected\<close>

lemma selected_file_none:
  "selected_file e = None \<longleftrightarrow>
     input_files e = None \<or> input_files e = Some None \<or> input_files e = Some (Some [])"
  by (auto simp: selected_file_def split: option.splits list.splits)

text \<open>
  Claim C4: when the binding has no file input, or its file list is null or empty, a run
  issues no request at all, shows the choose-a-file warning in the status element, and
  ends by returning with the trigger's \<^verbatim>\<open>disabled\<close> flag as it was at the activation, so
  a trigger that was enabled is still enabled.
\<close>

theorem no_file_no_request:
  assumes "input_files e = None \<or> input_files e = Some None \<or> input_files e = Some (Some [])"
  shows "events (click_handler e p) = []
    \<and> status_html (final (click_handler e p)) = choose_file_html
    \<and> status_class (final (click_handler e p)) = ''warning''
    \<and> btn_disabled (final (click_handler e p)) = btn_disabled p
    \<and> outcome (click_handler e p) = Returned_early"
proof -
  from assms have "selected_file e = None" by (simp add: selected_file_none)
  then show ?thesis
    by (simp add: events_def click_no_file setStatus_def enter_def)
qed

theorem no_file_no_request_witness:
  "input_files sample_env_no_file = Some (Some [])
   \<and> events (click_handler sample_env_no_file sample_page) = []
   \<and> status_html (final (click_handler sample_env_no_file sample_page)) = choose_file_html
   \<and> \<not> btn_disabled (final (click_handler sample_env_no_file sample_page))"
  using no_file_no_request [of sample_env_no_file sample_page]
  by (simp add: sample_env_no_file_def sample_env_def sample_page_def)

section \<open>Claim C5: the trigger while a run is in flight\<close>

lemma suspended_disabled:
  assumes "(ev, s) \<in> set (trace (click_handler e p))"
  shows "btn_disabled s"
proof (cases rule: run_cases [where e = e and p = p])
  case no_file
  with assms show ?thesis by (simp add: click_no_file)
next
  case (detect_failed f)
  with assms show ?thesis
    by (auto simp: click_detect_failed(1) before_detect_disabled)
next
  case (present_raised f st json q)
  with assms show ?thesis
    by (auto simp: run_present_raised before_detect_disabled)
next
  case (sensor_skipped f st json p4)
  with assms show ?thesis
    by (auto simp: run_sensor_skipped finish_def before_detect_disabled)
next
  case (coercion_raised f st json p4)
  with assms show ?thesis
    by (auto simp: run_coercion_raised before_detect_disabled)
next
  case (sensor_issued f st json p4 d)
  have "btn_disabled p4"
    using present_frame(1) [OF sensor_issued(4)] by (simp add: before_detect_disabled)
  with assms show ?thesis
    by (auto simp: run_sensor_issued(2) [OF sensor_issued] before_detect_disabled)
qed

lemma first_event:
  assumes "selected_file e = Some f"
  shows "\<exists>tr. trace (click_handler e p) = (Detect_request f, started e f p) # tr"
proof (cases rule: run_cases [where e = e and p = p])
  case no_file
  with assms show ?thesis by simp
next
  case (detect_failed f')
  with assms show ?thesis by (simp add: click_detect_failed(1))
next
  case (present_raised f' st json q)
  with assms show ?thesis by (simp add: run_present_raised)
next
  case (sensor_skipped f' st json p4)
  with assms show ?thesis by (simp add: run_sensor_skipped finish_def)
next
  case (coercion_raised f' st json p4)
  with assms show ?thesis by (simp add: run_coercion_raised)
next
  case (sensor_issued f' st json p4 d)
  with assms show ?thesis by (simp add: run_sensor_issued(2) [OF sensor_issued])
qed

text \<open>
  Claim C5, as stated, fails: the entry of the handler (lines 115 and 116) leaves an
  enabled trigger enabled, so the file validation runs on an enabled trigger; a run with no
  file selected never disables it.
\<close>

theorem disabled_on_entry_counterexample:
  "\<not> btn_disabled sample_page
   \<and> \<not> btn_disabled (enter sample_page)
   \<and> trace (click_handler sample_env_no_file sample_page) = []
   \<and> \<not> btn_disabled (final (click_handler sample_env_no_file sample_page))"
proof -
  have "selected_file sample_env_no_file = None"
    by (simp add: selected_file_def sample_env_no_file_def sample_env_def)
  then show ?thesis
    by (simp add: click_no_file enter_def setStatus_def sample_page_def)
qed

text \<open>
  Claim C5, amended: on an activation with a file selected the trigger is disabled after
  the file validation and the preview (line 136), before the detection request is issued,
  and its \<^verbatim>\<open>disabled\<close> flag is set at every point at which the run is suspended on a
  request, so a trigger that dispatches no click while disabled (a button or an input)
  starts no second run while one is in flight. The entry of the handler does not write the
  flag, and with no file selected the run ends at once without having written it.
\<close>

theorem trigger_disabled_in_flight:
  "(\<forall>(ev, s) \<in> set (trace (click_handler e p)). btn_disabled s)
   \<and> (selected_file e = Some f \<longrightarrow>
        (\<exists>tr. trace (click_handler e p) = (Detect_request f, started e f p) # tr))
   \<and> btn_disabled (enter p) = btn_disabled p
   \<and> (selected_file e = None \<longrightarrow>
        trace (click_handler e p) = []
        \<and> btn_disabled (final (click_handler e p)) = btn_disabled p)"
proof -
  have a: "\<forall>(ev, s) \<in> set (trace (click_handler e p)). btn_disabled s"
    using suspended_disabled by blast
  have b: "selected_file e = Some f \<longrightarrow>
        (\<exists>tr. trace (click_handler e p) = (Detect_request f, started e f p) # tr)"
    using first_event by blast
  have c: "btn_disabled (enter p) = btn_disabled p"
    by (rule enter_frame(5))
  have d: "selected_file e = None \<longrightarrow>
        trace (click_handler e p) = []
        \<and> btn_disabled (final (click_handler e p)) = btn_disabled p"
    by (simp add: click_no_file setStatus_def enter_def)
  from a b c d show ?thesis by blast
qed

theorem trigger_disabled_in_flight_witness:
  "selected_file sample_env = Some ''road.jpg''
   \<and> length (trace (click_handler sample_env sample_page)) = 3
   \<and> btn_disabled (snd (trace (click_handler sample_env sample_page) ! 0))
   \<and> btn_disabled (snd (trace (click_handler sample_env sample_page) ! 1))
   \<and> btn_disabled (snd (trace (click_handler sample_env sample_page) ! 2))
   \<and> \<not> btn_disabled sample_page
   \<and> selected_file sample_env_no_file = None
   \<and> trace (click_handler sample_env_no_file sample_page) = []
   \<and> \<not> btn_disabled (final (click_handler sample_env_no_file sample_page))"
proof -
  let ?tr = "trace (click_handler sample_env sample_page)"
  have len: "length ?tr = 3"
    using sample_events by (simp add: events_def flip: length_map [of fst ?tr])
  have all: "\<forall>(ev, s) \<in> set ?tr. btn_disabled s"
    using trigger_disabled_in_flight [of sample_env sample_page "''road.jpg''"] by blast
  have "btn_disabled (snd (?tr ! i))" if "i < 3" for i
  proof -
    from that len have "?tr ! i \<in> set ?tr" by simp
    with all show ?thesis by (auto simp: case_prod_beta)
  qed
  then have dis: "btn_disabled (snd (?tr ! 0))" "btn_disabled (snd (?tr ! 1))"
    "btn_disabled (snd (?tr ! 2))"
    by simp_all
  have none: "selected_file sample_env_no_file = None"
    by (simp add: selected_file_def sample_env_no_file_def sample_env_def)
  have en: "\<not> btn_disabled sample_page" by (simp add: sample_page_def)
  from none en trigger_disabled_in_flight [of sample_env_no_file sample_page "''road.jpg''"]
  have "trace (click_handler sample_env_no_file sample_page) = []"
    and "\<not> btn_disabled (final (click_handler sample_env_no_file sample_page))"
    by simp_all
  with len dis sample_selected none en show ?thesis by simp
qed

section \<open>Claim C6: when the sensor request is issued\<close>

text \<open>
  In every run a sensor request comes third and last, after the detection request and the
  parse of its response, with a count that is not null and a sensor-output slot; and a run
  that raises nothing issues it whenever the condition of line 191 holds.
\<close>

lemma iot_request_shape:
  assumes "Iot_request d \<in> set (events (click_handler e p))"
  shows "\<exists>f json. events (click_handler e p)
                    = [Detect_request f, Detect_parsed json, Iot_request d]
                  \<and> count_of json \<noteq> JNull \<and> iot p \<noteq> None"
proof (cases rule: run_cases [where e = e and p = p])
  case no_file
  with assms show ?thesis by (simp add: events_no_file)
next
  case (detect_failed f)
  with assms show ?thesis by (simp add: events_detect_failed)
next
  case (present_raised f st json q)
  with assms show ?thesis by (simp add: events_def run_present_raised)
next
  case (sensor_skipped f st json p4)
  with assms show ?thesis by (simp add: events_def run_sensor_skipped finish_def)
next
  case (coercion_raised f st json p4)
  with assms show ?thesis by (simp add: events_def run_coercion_raised)
next
  case (sensor_issued f st json p4 d')
  note tr = run_sensor_issued(2) [OF sensor_issued]
  from assms tr have "d = d'" by (simp add: events_def)
  with tr sensor_issued(5,6) show ?thesis by (simp add: events_def)
qed

lemma parsed_then_issued:
  assumes "Detect_parsed json \<in> set (events (click_handler e p))"
    and "count_of json \<noteq> JNull" and "iot p \<noteq> None"
    and "\<forall>x. outcome (click_handler e p) \<noteq> Threw x"
  shows "\<exists>d. Iot_request d \<in> set (events (click_handler e p))"
proof (cases rule: run_cases [where e = e and p = p])
  case no_file
  with assms(1) show ?thesis by (simp add: events_no_file)
next
  case (detect_failed f)
  with assms(1) show ?thesis by (simp add: events_detect_failed)
next
  case (present_raised f st json' q)
  with assms(4) show ?thesis by (simp add: run_present_raised)
next
  case (sensor_skipped f st json' p4)
  from assms(1) have "json = json'"
    by (simp add: events_def run_sensor_skipped [OF sensor_skipped] finish_def)
  with sensor_skipped(5) assms(2,3) show ?thesis by simp
next
  case (coercion_raised f st json' p4)
  with assms(4) show ?thesis by (simp add: run_coercion_raised)
next
  case (sensor_issued f st json' p4 d)
  then show ?thesis by (auto simp: events_def run_sensor_issued(2) [OF sensor_issued])
qed

text \<open>
  Claim C6 on the response \<^verbatim>\<open>{"vehicle_count": {"toString": 1}}\<close> and a page with a
  metadata and a sensor-output slot: the response is parsed, the extracted count is not
  null and the slot exists, and yet no sensor request is issued. The template literal of
  line 178 cannot convert the count to a string, and the TypeError, which nothing catches,
  ends the run before the condition of line 191 is tested, with the trigger disabled.
\<close>

theorem odd_count_no_sensor_request:
  "count_of odd_detection \<noteq> JNull
   \<and> iot sample_page \<noteq> None
   \<and> events (click_handler sample_env_odd_count sample_page)
       = [Detect_request ''road.jpg'', Detect_parsed odd_detection]
   \<and> outcome (click_handler sample_env_odd_count sample_page) = Threw Type_error
   \<and> btn_disabled (final (click_handler sample_env_odd_count sample_page))"
proof -
  have c: "count_of odd_detection = JObj [(''toString'', JNum 1)]"
    by (simp add: count_of_def odd_detection_def js_coalesce_def)
  have s: "selected_file sample_env_odd_count = Some ''road.jpg''"
    by (simp add: selected_file_def sample_env_odd_count_def sample_env_def)
  have r: "detect_reply sample_env_odd_count ''road.jpg'' = Response 200 (Json odd_detection)"
    by (simp add: sample_env_odd_count_def)
  have ok: "http_ok 200" by (simp add: http_ok_def)
  have m: "meta (started sample_env_odd_count ''road.jpg'' sample_page) = Some []"
    by (simp add: before_detect_frame enter_frame sample_page_def)
  have n: "\<not> nullish odd_detection" by (simp add: odd_detection_def)
  have "render_meta sample_env_odd_count (count_of odd_detection) (risk_of odd_detection)
          = None"
    by (simp add: render_meta_def c)
  with n m have "\<exists>q. present sample_env_odd_count odd_detection
               (started sample_env_odd_count ''road.jpg'' sample_page) = (q, True)"
    by (simp add: present_meta_raises)
  then obtain q where
    q: "present sample_env_odd_count odd_detection
       (started sample_env_odd_count ''road.jpg'' sample_page) = (q, True)"
    by blast
  have "btn_disabled q"
    using present_raised [OF q] by (simp add: before_detect_disabled)
  with run_present_raised [OF s r ok q] show ?thesis
    by (simp add: events_def c sample_page_def)
qed

section \<open>Claim C1: failures of the pipeline and the trigger\<close>

text \<open>
  The failures that the handler catches leave the trigger enabled: a transport failure, a
  non-success status, a body that cannot be read and a body that is not JSON all end the
  run by a return, with an error status and the trigger enabled.
\<close>

lemma caught_failures_reenable:
  assumes "selected_file e = Some f"
    and "detect_reply e f = Transport_failure
         \<or> (\<exists>st b. detect_reply e f = Response st b
                    \<and> (\<not> http_ok st \<or> b = Unreadable \<or> b = Not_json))"
  shows "outcome (click_handler e p) = Returned_early
     \<and> \<not> btn_disabled (final (click_handler e p))"
proof -
  from assms(2)
  have "\<forall>st json. http_ok st \<longrightarrow> detect_reply e f \<noteq> Response st (Json json)"
    by auto
  from click_detect_failed(2,3) [OF assms(1) this] show ?thesis by simp
qed

text \<open>
  Claim C1 on the response with status 200 and the body \<^verbatim>\<open>null\<close>: the body parses, line
  172 reads a property of \<^verbatim>\<open>null\<close>, and the run ends in a TypeError that nothing catches,
  with the trigger still disabled.
\<close>

theorem null_body_leaves_trigger_disabled:
  "outcome (click_handler sample_env_null_body sample_page) = Threw Type_error
   \<and> btn_disabled (final (click_handler sample_env_null_body sample_page))"
proof -
  have s: "selected_file sample_env_null_body = Some ''road.jpg''"
    by (simp add: selected_file_def sample_env_null_body_def sample_env_def)
  have r: "detect_reply sample_env_null_body ''road.jpg'' = Response 200 (Json JNull)"
    by (simp add: sample_env_null_body_def)
  have ok: "http_ok 200" by (simp add: http_ok_def)
  have "present sample_env_null_body JNull (started sample_env_null_body ''road.jpg'' sample_page)
          = (log (Log_detect_json JNull)
               (started sample_env_null_body ''road.jpg'' sample_page), True)"
    by (simp add: present_null)
  from run_present_raised [OF s r ok this] show ?thesis
    by (simp add: log_def before_detect_disabled)
qed

section \<open>Claim C10: the thumbnail refresh\<close>

lemma url_base_no_mark: "CHR ''?'' \<notin> set (url_base s)"
  unfolding url_base_def using set_takeWhileD by fastforce

lemma url_base_append_mark: "url_base (url_base s @ CHR ''?'' # rest) = url_base s"
proof -
  have "takeWhile (\<lambda>c. c \<noteq> CHR ''?'') (takeWhile (\<lambda>c. c \<noteq> CHR ''?'') s @ CHR ''?'' # rest)
          = takeWhile (\<lambda>c. c \<noteq> CHR ''?'') s @ takeWhile (\<lambda>c. c \<noteq> CHR ''?'') (CHR ''?'' # rest)"
    by (rule takeWhile_append2) (auto dest: set_takeWhileD)
  then show ?thesis by (simp add: url_base_def)
qed

lemma url_base_busted: "url_base (busted t s) = url_base s"
proof -
  have "busted t s = url_base s @ CHR ''?'' # (''t='' @ show_nat t)"
    by (simp add: busted_def)
  then show ?thesis by (simp only: url_base_append_mark)
qed

lemma busted_busted: "busted t' (busted t s) = busted t' s"
proof -
  have "busted t' (busted t s) = url_base (busted t s) @ ''?t='' @ show_nat t'"
    by (rule busted_def)
  also have "\<dots> = url_base s @ ''?t='' @ show_nat t'"
    by (simp only: url_base_busted)
  also have "\<dots> = busted t' s"
    by (rule busted_def [symmetric])
  finally show ?thesis .
qed

lemma digit_char_no_mark: "d < 10 \<Longrightarrow> digit_char d \<noteq> CHR ''?''"
proof -
  assume "d < 10"
  then have "digit_char d \<in> set ''0123456789''"
    unfolding digit_char_def by (intro nth_mem) simp
  then show ?thesis by auto
qed

lemma show_nat_no_mark: "CHR ''?'' \<notin> set (show_nat n)"
proof (induction n rule: show_nat.induct)
  case (1 n)
  show ?case
  proof (cases "n < 10")
    case True
    then show ?thesis
      using digit_char_no_mark [of n] by (subst show_nat.simps) auto
  next
    case False
    have "n mod 10 < 10" by simp
    with False "1.IH" show ?thesis
      using digit_char_no_mark [of "n mod 10"] by (subst show_nat.simps) auto
  qed
qed

lemma busted_one_mark: "length (filter (\<lambda>c. c = CHR ''?'') (busted t s)) = 1"
proof -
  have a: "filter (\<lambda>c. c = CHR ''?'') (url_base s) = []"
    using url_base_no_mark [of s] by (auto simp: filter_empty_conv)
  have b: "filter (\<lambda>c. c = CHR ''?'') (show_nat t) = []"
    using show_nat_no_mark [of t] by (auto simp: filter_empty_conv)
  show ?thesis by (simp add: busted_def a b)
qed

lemma refresh_general:
  "refreshMetricsThumbnails t imgs =
     (map (map_option (busted t)) (takeWhile (\<lambda>x. x \<noteq> None) imgs)
        @ dropWhile (\<lambda>x. x \<noteq> None) imgs,
      None \<in> set imgs)"
proof (induction imgs)
  case Nil
  show ?case by simp
next
  case (Cons x imgs)
  then show ?case by (cases x) (simp_all split: prod.splits)
qed

lemma refresh_all:
  assumes "None \<notin> set imgs"
  shows "refreshMetricsThumbnails t imgs = (map (map_option (busted t)) imgs, False)"
proof -
  have all: "\<forall>x\<in>set imgs. x \<noteq> None"
  proof (intro ballI notI)
    fix x assume "x \<in> set imgs" and "x = None"
    with assms show False by simp
  qed
  then have tw: "takeWhile (\<lambda>x. x \<noteq> None) imgs = imgs"
    by (simp only: takeWhile_eq_all_conv)
  from all have dw: "dropWhile (\<lambda>x. x \<noteq> None) imgs = []"
    by (simp only: dropWhile_eq_Nil_conv)
  show ?thesis
    unfolding refresh_general tw dw using assms by simp
qed

lemma refresh_twice:
  assumes "None \<notin> set imgs"
  shows "refreshMetricsThumbnails t' (fst (refreshMetricsThumbnails t imgs))
           = refreshMetricsThumbnails t' imgs"
proof -
  have n: "None \<notin> set (map (map_option (busted t)) imgs)"
    using assms by auto
  have "map (map_option (busted t')) (map (map_option (busted t)) imgs)
          = map (map_option (busted t')) imgs"
    by (simp add: option.map_comp comp_def busted_busted)
  then show ?thesis
    by (simp add: refresh_all [OF assms] refresh_all [OF n])
qed

text \<open>
  Claim C10, as stated, fails: of two thumbnails, the first without a \<^verbatim>\<open>src\<close> attribute
  and the second with the source \<^verbatim>\<open>b.png\<close>, the refresh changes neither: it raises at
  the first and never reaches the second.
\<close>

theorem refresh_counterexample:
  "refreshMetricsThumbnails 5 [None, Some ''b.png''] = ([None, Some ''b.png''], True)"
  by simp

text \<open>
  Claim C10, amended: the refresh sets the source of every thumbnail that comes before the
  first one without a \<^verbatim>\<open>src\<close> attribute (of every thumbnail, when each has one) to the
  part of its source before the first question mark, followed by \<^verbatim>\<open>?t=\<close> and the time in
  decimal; the new source has exactly one question mark and the same base, so a refresh
  after a refresh gives what the later refresh alone gives and no parameters accumulate.
  At the first thumbnail without the attribute the refresh raises, and that thumbnail and
  the later ones are left as they were.
\<close>

theorem refresh_thumbnails:
  "refreshMetricsThumbnails t imgs =
     (map (map_option (busted t)) (takeWhile (\<lambda>x. x \<noteq> None) imgs)
        @ dropWhile (\<lambda>x. x \<noteq> None) imgs,
      None \<in> set imgs)
   \<and> busted t s = url_base s @ ''?t='' @ show_nat t
   \<and> url_base (busted t s) = url_base s
   \<and> length (filter (\<lambda>c. c = CHR ''?'') (busted t s)) = 1
   \<and> busted t' (busted t s) = busted t' s
   \<and> (None \<notin> set imgs \<longrightarrow>
        refreshMetricsThumbnails t imgs = (map (map_option (busted t)) imgs, False)
        \<and> refreshMetricsThumbnails t' (fst (refreshMetricsThumbnails t imgs))
            = refreshMetricsThumbnails t' imgs)"
  using refresh_general [of t imgs] url_base_busted [of t s] busted_one_mark [of t s]
    busted_busted [of t' t s] refresh_all [of imgs t] refresh_twice [of imgs t' t]
  by (simp add: busted_def)

theorem refresh_thumbnails_witness:
  "None \<notin> set [Some ''/static/metrics/pr.png'', Some ''/static/metrics/f1.png?t=1'']
   \<and> refreshMetricsThumbnails 7
        [Some ''/static/metrics/pr.png'', Some ''/static/metrics/f1.png?t=1'']
      = ([Some ''/static/metrics/pr.png?t=7'', Some ''/static/metrics/f1.png?t=7''], False)
   \<and> refreshMetricsThumbnails 9
        (fst (refreshMetricsThumbnails 7
           [Some ''/static/metrics/pr.png'', Some ''/static/metrics/f1.png?t=1'']))
      = ([Some ''/static/metrics/pr.png?t=9'', Some ''/static/metrics/f1.png?t=9''], False)"
  using refresh_thumbnails
    [of 7 "[Some ''/static/metrics/pr.png'', Some ''/static/metrics/f1.png?t=1'']" _ 9]
  by (simp add: busted_def url_base_def show_nat.simps digit_char_def)

section \<open>Claims C7 and C9: a failing sensor step\<close>

text \<open>
  A run whose sensor request got no truthy answer: it completes, and its last page is the
  page on which the request was issued with the placeholder in the sensor-output slot,
  the console entries of the sensor client, the thumbnails refreshed and the trigger
  enabled.
\<close>

lemma run_sensor_failed:
  assumes "(Iot_request d, s) \<in> set (trace (click_handler e p))"
    and "\<not> truthy (fst (callIot (iot_reply e d)))"
  shows "click_handler e p =
           finish e (trace (click_handler e p))
             (s\<lparr>console := console s @ snd (callIot (iot_reply e d)),
                iot := Some iot_failed_html\<rparr>)"
    and "\<exists>f st json. selected_file e = Some f \<and> detect_reply e f = Response st (Json json)
           \<and> http_ok st \<and> present e json (started e f p) = (s, False)
           \<and> Detect_parsed json \<in> set (events (click_handler e p))"
proof -
  let ?r = "click_handler e p"
  have "?r = finish e (trace ?r)
               (s\<lparr>console := console s @ snd (callIot (iot_reply e d)),
                  iot := Some iot_failed_html\<rparr>)
        \<and> (\<exists>f st json. selected_file e = Some f \<and> detect_reply e f = Response st (Json json)
             \<and> http_ok st \<and> present e json (started e f p) = (s, False)
             \<and> Detect_parsed json \<in> set (events ?r))"
  proof (cases rule: run_cases [where e = e and p = p])
    case no_file
    with assms(1) show ?thesis by (simp add: click_no_file)
  next
    case (detect_failed f)
    with assms(1) show ?thesis by (simp add: click_detect_failed(1))
  next
    case (present_raised f st json q)
    with assms(1) show ?thesis by (simp add: run_present_raised)
  next
    case (sensor_skipped f st json p4)
    with assms(1) show ?thesis by (simp add: run_sensor_skipped finish_def)
  next
    case (coercion_raised f st json p4)
    with assms(1) show ?thesis by (simp add: run_coercion_raised)
  next
    case (sensor_issued f st json p4 d')
    note issued = run_sensor_issued [OF sensor_issued]
    from assms(1) have eq: "d = d'" "s = p4" by (simp_all add: issued(2))
    have "?r = finish e (trace ?r)
                 (p4\<lparr>console := console p4 @ snd (callIot (iot_reply e d')),
                     iot := Some iot_failed_html\<rparr>)"
      using sensor_step_failed [OF sensor_issued(5) issued(3) sensor_issued(7)] assms(2) eq
        issued(1,2)
      by simp
    moreover have "Detect_parsed json \<in> set (events ?r)"
      by (simp add: events_def issued(2))
    ultimately show ?thesis
      using sensor_issued(1-4) eq by auto
  qed
  then show "?r = finish e (trace ?r)
               (s\<lparr>console := console s @ snd (callIot (iot_reply e d)),
                  iot := Some iot_failed_html\<rparr>)"
    and "\<exists>f st json. selected_file e = Some f \<and> detect_reply e f = Response st (Json json)
             \<and> http_ok st \<and> present e json (started e f p) = (s, False)
             \<and> Detect_parsed json \<in> set (events ?r)"
    by blast+
qed

text \<open>
  The failures that the sensor client catches (transport failure, non-success status,
  unreadable or unparseable body) and every answer that is not truthy are contained: the
  run completes through the normal exit; its last page differs from the page on which the
  sensor request was issued only in the sensor-output slot, which holds the failure
  placeholder, in the console, in the thumbnails, each of which up to the first one
  without a source has the time as its only parameter, and in the enabled trigger; the
  status still says that the detection completed, and the metadata and annotated-image
  elements still hold what was presented from the parsed detection response.
\<close>

lemma caught_sensor_failure_contained:
  assumes "(Iot_request d, s) \<in> set (trace (click_handler e p))"
    and "sensor_failure (iot_reply e d) \<or> \<not> truthy (fst (callIot (iot_reply e d)))"
  shows "outcome (click_handler e p) = Completed
    \<and> final (click_handler e p) =
        s\<lparr>console := console s @ snd (callIot (iot_reply e d)),
          iot := Some iot_failed_html,
          thumbs := fst (refreshMetricsThumbnails (now e) (thumbs s)),
          btn_disabled := False\<rparr>
    \<and> status_html (final (click_handler e p)) = completed_html
    \<and> status_class (final (click_handler e p)) = ''ok''
    \<and> (\<exists>json. Detect_parsed json \<in> set (events (click_handler e p))
          \<and> meta (final (click_handler e p)) =
              (case meta p of
                 None \<Rightarrow> None
               | Some old \<Rightarrow> render_meta e (count_of json) (risk_of json))
          \<and> annotated (final (click_handler e p)) =
              (case annotated p of
                 None \<Rightarrow> None
               | Some im \<Rightarrow>
                   if truthy (outImg_of json) then
                     map_option (\<lambda>u. \<lparr>img_src = u, img_display = ''block''\<rparr>)
                       (to_string (num_to_str e) (outImg_of json))
                   else Some (im\<lparr>img_display := ''none''\<rparr>)))
    \<and> iot (final (click_handler e p)) = Some iot_failed_html
    \<and> \<not> btn_disabled (final (click_handler e p))
    \<and> thumbs (final (click_handler e p)) =
        map (map_option (\<lambda>u. url_base u @ ''?t='' @ show_nat (now e)))
          (takeWhile (\<lambda>x. x \<noteq> None) (thumbs p))
        @ dropWhile (\<lambda>x. x \<noteq> None) (thumbs p)"
proof -
  let ?r = "click_handler e p"
  from assms(2) have nt: "\<not> truthy (fst (callIot (iot_reply e d)))"
    using callIot_failure [of "iot_reply e d"] by auto
  note fin = run_sensor_failed(1) [OF assms(1) nt]
  from run_sensor_failed(2) [OF assms(1) nt] obtain f st json where
    pr: "present e json (started e f p) = (s, False)"
    and ev: "Detect_parsed json \<in> set (events ?r)"
    by blast
  have o: "outcome ?r = Completed" by (subst fin) (simp add: finish_def)
  have f: "final ?r =
        s\<lparr>console := console s @ snd (callIot (iot_reply e d)),
          iot := Some iot_failed_html,
          thumbs := fst (refreshMetricsThumbnails (now e) (thumbs s)),
          btn_disabled := False\<rparr>"
    by (subst fin) (simp add: finish_def)
  have st: "status_html (final ?r) = completed_html" "status_class (final ?r) = ''ok''"
    by (simp_all add: f present_frame(5,6) [OF pr])
  have m: "meta (final ?r) =
              (case meta p of
                 None \<Rightarrow> None
               | Some old \<Rightarrow> render_meta e (count_of json) (risk_of json))"
    by (simp add: f present_frame(8) [OF pr] before_detect_frame enter_frame)
  have a: "annotated (final ?r) =
              (case annotated p of
                 None \<Rightarrow> None
               | Some im \<Rightarrow>
                   if truthy (outImg_of json) then
                     map_option (\<lambda>u. \<lparr>img_src = u, img_display = ''block''\<rparr>)
                       (to_string (num_to_str e) (outImg_of json))
                   else Some (im\<lparr>img_display := ''none''\<rparr>))"
    by (simp add: f present_annotated [OF pr] before_detect_frame enter_frame)
  have i: "iot (final ?r) = Some iot_failed_html" "\<not> btn_disabled (final ?r)"
    by (simp_all add: f)
  have b: "busted (now e) = (\<lambda>u. url_base u @ ''?t='' @ show_nat (now e))"
    by (rule ext) (simp add: busted_def)
  have "thumbs (final ?r) = fst (refreshMetricsThumbnails (now e) (thumbs p))"
    by (simp add: f present_frame(3) [OF pr] before_detect_frame enter_frame)
  then have t: "thumbs (final ?r) =
        map (map_option (\<lambda>u. url_base u @ ''?t='' @ show_nat (now e)))
          (takeWhile (\<lambda>x. x \<noteq> None) (thumbs p))
        @ dropWhile (\<lambda>x. x \<noteq> None) (thumbs p)"
    by (simp only: refresh_general fst_conv b)
  from o f st ev m a i t show ?thesis by blast
qed

lemma sensor_down_trace:
  "\<exists>s. trace (click_handler sample_env_sensor_down sample_page) =
         [(Detect_request ''road.jpg'', started sample_env_sensor_down ''road.jpg'' sample_page),
          (Detect_parsed sample_detection,
             started sample_env_sensor_down ''road.jpg'' sample_page),
          (Iot_request (Fin 116), s)]"
proof -
  have n: "num_to_str sample_env_sensor_down = num_to_str sample_env"
    by (simp add: sample_env_sensor_down_def)
  obtain p4 where
    p: "present sample_env_sensor_down sample_detection
          (started sample_env_sensor_down ''road.jpg'' sample_page) = (p4, False)"
    using sample_present_any [OF n] by blast
  have s: "selected_file sample_env_sensor_down = Some ''road.jpg''"
    by (simp add: selected_file_def sample_env_sensor_down_def sample_env_def)
  have r: "detect_reply sample_env_sensor_down ''road.jpg''
             = Response 200 (Json sample_detection)"
    by (simp add: sample_env_sensor_down_def sample_env_def)
  have ok: "http_ok 200" by (simp add: http_ok_def)
  have c: "count_of sample_detection \<noteq> JNull" by (simp add: sample_count)
  have i: "iot sample_page \<noteq> None" by (simp add: sample_iot)
  from run_sensor_issued(2) [OF s r ok p c i sample_distance] show ?thesis by blast
qed

text \<open>The sample run against a sensor endpoint that cannot be reached.\<close>

lemma sensor_down_run:
  "outcome (click_handler sample_env_sensor_down sample_page) = Completed
   \<and> status_html (final (click_handler sample_env_sensor_down sample_page)) = completed_html
   \<and> iot (final (click_handler sample_env_sensor_down sample_page)) = Some iot_failed_html
   \<and> \<not> btn_disabled (final (click_handler sample_env_sensor_down sample_page))
   \<and> thumbs (final (click_handler sample_env_sensor_down sample_page)) =
       [Some ''/static/metrics/pr.png?t=1700000000000'',
        Some ''/static/metrics/f1.png?t=1700000000000'']"
proof -
  obtain s where
    m: "(Iot_request (Fin 116), s)
          \<in> set (trace (click_handler sample_env_sensor_down sample_page))"
    using sensor_down_trace by auto
  have f: "sensor_failure (iot_reply sample_env_sensor_down (Fin 116))
           \<or> \<not> truthy (fst (callIot (iot_reply sample_env_sensor_down (Fin 116))))"
    by (simp add: sample_env_sensor_down_def)
  have t: "map (map_option (\<lambda>u. url_base u @ ''?t='' @ show_nat (now sample_env_sensor_down)))
             (takeWhile (\<lambda>x. x \<noteq> None) (thumbs sample_page))
           @ dropWhile (\<lambda>x. x \<noteq> None) (thumbs sample_page)
           = [Some ''/static/metrics/pr.png?t=1700000000000'',
              Some ''/static/metrics/f1.png?t=1700000000000'']"
    by (simp add: sample_page_def sample_env_sensor_down_def sample_env_def url_base_def
        show_nat.simps digit_char_def)
  note k = caught_sensor_failure_contained [OF m f]
  from k have o: "outcome (click_handler sample_env_sensor_down sample_page) = Completed"
    and st: "status_html (final (click_handler sample_env_sensor_down sample_page))
               = completed_html"
    and i: "iot (final (click_handler sample_env_sensor_down sample_page))
              = Some iot_failed_html"
    and b: "\<not> btn_disabled (final (click_handler sample_env_sensor_down sample_page))"
    and x: "thumbs (final (click_handler sample_env_sensor_down sample_page)) =
        map (map_option (\<lambda>u. url_base u @ ''?t='' @ show_nat (now sample_env_sensor_down)))
          (takeWhile (\<lambda>x. x \<noteq> None) (thumbs sample_page))
        @ dropWhile (\<lambda>x. x \<noteq> None) (thumbs sample_page)"
    by blast+
  from x t have "thumbs (final (click_handler sample_env_sensor_down sample_page)) =
       [Some ''/static/metrics/pr.png?t=1700000000000'',
        Some ''/static/metrics/f1.png?t=1700000000000'']"
    by (rule trans)
  with o st i b show ?thesis by blast
qed

text \<open>Two ways in which the sensor step ends in an exception that nothing catches.\<close>

lemma sensor_step_render_raises:
  assumes "c \<noteq> JNull" and "iot p \<noteq> None"
    and "sensor_distance (num_to_str e) (str_to_num e) c = Some d"
    and "truthy (fst (callIot (iot_reply e d)))"
    and "render_iot e (fst (callIot (iot_reply e d))) = None"
  shows "sensor_step e c tr p =
           \<lparr>final = p\<lparr>console := console p @ snd (callIot (iot_reply e d))\<rparr>,
            outcome = Threw Type_error,
            trace = tr @ [(Iot_request d, p)]\<rparr>"
  using assms by (auto simp: sensor_step_def Let_def split: prod.splits)

lemma present_completes_no_meta:
  assumes "\<not> nullish json" and "meta p0 = None" and "\<not> truthy (outImg_of json)"
  shows "\<exists>p4. present e json p0 = (p4, False)"
  using assms
  by (auto simp: present_def Let_def write_meta_def write_annotated_def setStatus_def
      log_def split: option.splits)

lemma odd_sensor_run:
  "events (click_handler sample_env_odd_sensor sample_page)
     = [Detect_request ''road.jpg'', Detect_parsed sample_detection, Iot_request (Fin 116)]
   \<and> outcome (click_handler sample_env_odd_sensor sample_page) = Threw Type_error
   \<and> iot (final (click_handler sample_env_odd_sensor sample_page)) = Some []
   \<and> thumbs (final (click_handler sample_env_odd_sensor sample_page)) = thumbs sample_page
   \<and> btn_disabled (final (click_handler sample_env_odd_sensor sample_page))"
proof -
  let ?e = sample_env_odd_sensor
  have n: "num_to_str ?e = num_to_str sample_env" by (simp add: sample_env_odd_sensor_def)
  obtain p4 where p: "present ?e sample_detection (started ?e ''road.jpg'' sample_page)
                        = (p4, False)"
    using sample_present_any [OF n] by blast
  have s: "selected_file ?e = Some ''road.jpg''"
    by (simp add: selected_file_def sample_env_odd_sensor_def sample_env_def)
  have r: "detect_reply ?e ''road.jpg'' = Response 200 (Json sample_detection)"
    by (simp add: sample_env_odd_sensor_def sample_env_def)
  have ok: "http_ok 200" by (simp add: http_ok_def)
  have c: "count_of sample_detection \<noteq> JNull" by (simp add: sample_count)
  have i: "iot sample_page \<noteq> None" by (simp add: sample_iot)
  note issued = run_sensor_issued [OF s r ok p c i sample_distance]
  have a: "callIot (iot_reply ?e (Fin 116)) = (odd_sensor, [])"
    by (simp add: sample_env_odd_sensor_def http_ok_def)
  have t: "truthy (fst (callIot (iot_reply ?e (Fin 116))))"
    by (simp add: a odd_sensor_def)
  have h: "render_iot ?e (fst (callIot (iot_reply ?e (Fin 116)))) = None"
    by (simp add: a render_iot_def odd_sensor_def)
  note raised = sensor_step_render_raises [OF c issued(3) sample_distance t h]
  have fr: "iot p4 = Some []" "thumbs p4 = thumbs sample_page" "btn_disabled p4"
    using present_frame(1,2,3) [OF p]
    by (simp_all add: before_detect_frame enter_frame before_detect_disabled sample_iot)
  show ?thesis
    unfolding issued(1) raised by (simp add: events_def fr a)
qed

lemma odd_count_coercion_run:
  "events (click_handler sample_env_odd_count sample_page_no_meta)
     = [Detect_request ''road.jpg'', Detect_parsed odd_detection]
   \<and> outcome (click_handler sample_env_odd_count sample_page_no_meta) = Threw Type_error
   \<and> status_html (final (click_handler sample_env_odd_count sample_page_no_meta))
       = completed_html
   \<and> iot (final (click_handler sample_env_odd_count sample_page_no_meta)) = Some []
   \<and> btn_disabled (final (click_handler sample_env_odd_count sample_page_no_meta))"
proof -
  let ?e = sample_env_odd_count
  let ?p = sample_page_no_meta
  have cv: "count_of odd_detection = JObj [(''toString'', JNum 1)]"
    by (simp add: count_of_def odd_detection_def js_coalesce_def)
  have s: "selected_file ?e = Some ''road.jpg''"
    by (simp add: selected_file_def sample_env_odd_count_def sample_env_def)
  have r: "detect_reply ?e ''road.jpg'' = Response 200 (Json odd_detection)"
    by (simp add: sample_env_odd_count_def)
  have ok: "http_ok 200" by (simp add: http_ok_def)
  have n: "\<not> nullish odd_detection" by (simp add: odd_detection_def)
  have m: "meta (started ?e ''road.jpg'' ?p) = None"
    by (simp add: before_detect_frame enter_frame sample_page_no_meta_def)
  have o: "\<not> truthy (outImg_of odd_detection)"
    by (simp add: outImg_of_def odd_detection_def js_or_def)
  obtain p4 where p: "present ?e odd_detection (started ?e ''road.jpg'' ?p) = (p4, False)"
    using present_completes_no_meta [OF n m o] by blast
  have c: "count_of odd_detection \<noteq> JNull" by (simp add: cv)
  have i: "iot ?p \<noteq> None" by (simp add: sample_page_no_meta_def sample_page_def)
  have d: "sensor_distance (num_to_str ?e) (str_to_num ?e) (count_of odd_detection) = None"
    by (simp add: sensor_distance_def cv)
  have fr: "iot p4 = Some []" "status_html p4 = completed_html" "btn_disabled p4"
    using present_frame(1,2,5) [OF p]
    by (simp_all add: before_detect_frame enter_frame before_detect_disabled
        sample_page_no_meta_def sample_page_def)
  from run_coercion_raised [OF s r ok p c i d] show ?thesis
    by (simp add: events_def fr)
qed

text \<open>
  Claim C7 on three runs in which the detection succeeds and the sensor step then fails.
  In the first the sensor endpoint cannot be reached, and the run is as the claim says:
  it completes, the status says that the detection completed, the sensor-output slot holds
  the failure placeholder, the thumbnails are refreshed and the trigger is enabled. In the
  second the sensor endpoint answers the request with status 200 and the body
  \<^verbatim>\<open>{"distance": {"toString": 1}}\<close>: the template literal of line 195 cannot convert the
  distance to a string. In the third, on a page without a metadata element, the count of
  the detection response is \<^verbatim>\<open>{"toString": 1}\<close>: the coercion of line 192 raises before
  the request. Nothing catches either TypeError: the sensor-output slot keeps its old
  content and does not get the placeholder, the thumbnails are not refreshed, and the
  trigger stays disabled.
\<close>

theorem sensor_step_exception_uncaught:
  "outcome (click_handler sample_env_sensor_down sample_page) = Completed
   \<and> status_html (final (click_handler sample_env_sensor_down sample_page)) = completed_html
   \<and> iot (final (click_handler sample_env_sensor_down sample_page)) = Some iot_failed_html
   \<and> \<not> btn_disabled (final (click_handler sample_env_sensor_down sample_page))
   \<and> thumbs (final (click_handler sample_env_sensor_down sample_page)) =
       [Some ''/static/metrics/pr.png?t=1700000000000'',
        Some ''/static/metrics/f1.png?t=1700000000000'']
   \<and> events (click_handler sample_env_odd_sensor sample_page)
       = [Detect_request ''road.jpg'', Detect_parsed sample_detection, Iot_request (Fin 116)]
   \<and> outcome (click_handler sample_env_odd_sensor sample_page) = Threw Type_error
   \<and> iot (final (click_handler sample_env_odd_sensor sample_page)) = Some []
   \<and> iot (final (click_handler sample_env_odd_sensor sample_page)) \<noteq> Some iot_failed_html
   \<and> thumbs (final (click_handler sample_env_odd_sensor sample_page))
       = [Some ''/static/metrics/pr.png'', Some ''/static/metrics/f1.png?t=1'']
   \<and> btn_disabled (final (click_handler sample_env_odd_sensor sample_page))
   \<and> events (click_handler sample_env_odd_count sample_page_no_meta)
       = [Detect_request ''road.jpg'', Detect_parsed odd_detection]
   \<and> outcome (click_handler sample_env_odd_count sample_page_no_meta) = Threw Type_error
   \<and> status_html (final (click_handler sample_env_odd_count sample_page_no_meta))
       = completed_html
   \<and> iot (final (click_handler sample_env_odd_count sample_page_no_meta)) = Some []
   \<and> btn_disabled (final (click_handler sample_env_odd_count sample_page_no_meta))"
proof -
  have "iot_failed_html \<noteq> []" by (simp add: iot_failed_html_def)
  moreover have "thumbs sample_page
                   = [Some ''/static/metrics/pr.png'', Some ''/static/metrics/f1.png?t=1'']"
    by (simp add: sample_page_def)
  ultimately show ?thesis
    using sensor_down_run odd_sensor_run odd_count_coercion_run by auto
qed

text \<open>
  Claim C9, as stated, fails: a transport failure, a non-success status and a body that
  is not JSON are three failures of the three classes, and the sensor client returns the
  same value for all of them.
\<close>

theorem sensor_classes_counterexample:
  "sensor_failure Transport_failure
   \<and> sensor_failure (Response 500 (Json JNull))
   \<and> sensor_failure (Response 200 Not_json)
   \<and> fst (callIot Transport_failure) = fst (callIot (Response 500 (Json JNull)))
   \<and> fst (callIot (Response 500 (Json JNull))) = fst (callIot (Response 200 Not_json))"
  by (simp add: http_ok_def)

text \<open>
  Claim C9, amended: the sensor client reduces the three failure classes to one outcome,
  the return value null, for which the handler shows one and the same placeholder; the
  classes differ only in the console entry (a warning with the status code for a
  non-success status, an error with the exception for a transport failure and for a body
  that cannot be read or parsed). Every such failure is non-fatal: the run completes.
\<close>

theorem sensor_failures_one_outcome:
  "(sensor_failure r \<longrightarrow> fst (callIot r) = JNull)
   \<and> callIot Transport_failure = (JNull, [Log_iot_error Fetch_failed])
   \<and> (\<not> http_ok st \<longrightarrow> callIot (Response st b) = (JNull, [Log_iot_non_ok st]))
   \<and> (http_ok st \<longrightarrow>
        callIot (Response st Unreadable) = (JNull, [Log_iot_error Body_unreadable])
        \<and> callIot (Response st Not_json) = (JNull, [Log_iot_error Syntax_error]))
   \<and> (Iot_request d \<in> set (events (click_handler e p)) \<and> sensor_failure (iot_reply e d) \<longrightarrow>
        outcome (click_handler e p) = Completed
        \<and> iot (final (click_handler e p)) = Some iot_failed_html)"
proof -
  have a: "sensor_failure r \<longrightarrow> fst (callIot r) = JNull"
    by (simp add: callIot_failure)
  have b: "callIot Transport_failure = (JNull, [Log_iot_error Fetch_failed])"
    by simp
  have c: "\<not> http_ok st \<longrightarrow> callIot (Response st b) = (JNull, [Log_iot_non_ok st])"
    by simp
  have d: "http_ok st \<longrightarrow>
        callIot (Response st Unreadable) = (JNull, [Log_iot_error Body_unreadable])
        \<and> callIot (Response st Not_json) = (JNull, [Log_iot_error Syntax_error])"
    by simp
  have r: "outcome (click_handler e p) = Completed
        \<and> iot (final (click_handler e p)) = Some iot_failed_html"
    if "Iot_request d \<in> set (events (click_handler e p))" and "sensor_failure (iot_reply e d)"
  proof -
    from that(1) obtain s where m: "(Iot_request d, s) \<in> set (trace (click_handler e p))"
      by (auto simp: events_def)
    from that(2) have nt: "\<not> truthy (fst (callIot (iot_reply e d)))"
      by (simp add: callIot_failure)
    show ?thesis
      by (subst (1 2) run_sensor_failed(1) [OF m nt]) (simp add: finish_def)
  qed
  from a b c d r show ?thesis by blast
qed

theorem sensor_failures_one_outcome_witness:
  "sensor_failure (iot_reply sample_env_sensor_down (Fin 116))
   \<and> fst (callIot (iot_reply sample_env_sensor_down (Fin 116))) = JNull
   \<and> \<not> http_ok 500
   \<and> callIot (Response 500 (Json JNull)) = (JNull, [Log_iot_non_ok 500])
   \<and> http_ok 200
   \<and> callIot (Response 200 Not_json) = (JNull, [Log_iot_error Syntax_error])
   \<and> Iot_request (Fin 116) \<in> set (events (click_handler sample_env_sensor_down sample_page))
   \<and> outcome (click_handler sample_env_sensor_down sample_page) = Completed
   \<and> iot (final (click_handler sample_env_sensor_down sample_page)) = Some iot_failed_html"
proof -
  have f: "sensor_failure (iot_reply sample_env_sensor_down (Fin 116))"
    by (simp add: sample_env_sensor_down_def)
  have m: "Iot_request (Fin 116)
             \<in> set (events (click_handler sample_env_sensor_down sample_page))"
    using sensor_down_trace by (auto simp: events_def)
  have h: "\<not> http_ok 500" "http_ok 200" by (simp_all add: http_ok_def)
  from f m h
    sensor_failures_one_outcome
      [of "iot_reply sample_env_sensor_down (Fin 116)" 500 "Json JNull" "Fin 116"
        sample_env_sensor_down sample_page]
    sensor_failures_one_outcome [of Transport_failure 200 Not_json "Fin 116"
        sample_env_sensor_down sample_page]
  show ?thesis by blast
qed

section \<open>Claim C8: attaching more than once\<close>

lemma attach_one_idem: "attach_one (attach_one btn) = attach_one btn"
  by (simp add: attach_one_def)

lemma attach_idem: "attachDetectHandlers (attachDetectHandlers btns) = attachDetectHandlers btns"
  by (simp add: attachDetectHandlers_def attach_one_idem)

lemma attach_again:
  "(attachDetectHandlers ^^ Suc n) btns = attachDetectHandlers btns"
proof (induction n)
  case 0
  show ?case by simp
next
  case (Suc n)
  have "(attachDetectHandlers ^^ Suc (Suc n)) btns
          = attachDetectHandlers ((attachDetectHandlers ^^ Suc n) btns)"
    by simp
  also have "\<dots> = attachDetectHandlers (attachDetectHandlers btns)"
    by (simp only: Suc.IH)
  also have "\<dots> = attachDetectHandlers btns"
    by (rule attach_idem)
  finally show ?case .
qed

lemma attach_length: "length (attachDetectHandlers btns) = length btns"
  by (simp add: attachDetectHandlers_def)

lemma attach_nth:
  "i < length btns \<Longrightarrow> attachDetectHandlers btns ! i = attach_one (btns ! i)"
  by (simp add: attachDetectHandlers_def)

text \<open>
  Claim C8: calling the attachment routine again changes nothing, so after any number of
  calls (one or more) the page is as after the first; across all these calls the routine
  adds at most one listener to a trigger, and exactly one to a trigger that did not carry
  the marker \<^verbatim>\<open>data-tv-attached="1"\<close> before the first call. A trigger that the routine
  has found new, without the marker and without a listener of the routine, therefore runs
  the pipeline exactly once on a click.
\<close>

theorem attach_binds_once:
  "(attachDetectHandlers ^^ Suc n) btns = attachDetectHandlers btns
   \<and> (i < length btns \<longrightarrow>
        listeners ((attachDetectHandlers ^^ Suc n) btns ! i) \<le> listeners (btns ! i) + 1
        \<and> (tvAttached (btns ! i) \<noteq> Some ''1'' \<longrightarrow>
             listeners ((attachDetectHandlers ^^ Suc n) btns ! i) = listeners (btns ! i) + 1)
        \<and> (tvAttached (btns ! i) \<noteq> Some ''1'' \<and> listeners (btns ! i) = 0 \<longrightarrow>
             runs_on_click ((attachDetectHandlers ^^ Suc n) btns ! i) = 1))"
  unfolding attach_again
  by (simp add: attach_nth attach_one_def runs_on_click_def)

theorem attach_binds_once_witness:
  "(1::nat) < length [\<lparr>tvAttached = Some ''1'', listeners = 1\<rparr>,
                      \<lparr>tvAttached = None, listeners = 0\<rparr>]
   \<and> tvAttached ([\<lparr>tvAttached = Some ''1'', listeners = 1\<rparr>,
                   \<lparr>tvAttached = None, listeners = 0\<rparr>] ! 1) \<noteq> Some ''1''
   \<and> listeners ([\<lparr>tvAttached = Some ''1'', listeners = 1\<rparr>,
                  \<lparr>tvAttached = None, listeners = 0\<rparr>] ! 1) = 0
   \<and> runs_on_click
        ((attachDetectHandlers ^^ Suc 2)
            [\<lparr>tvAttached = Some ''1'', listeners = 1\<rparr>,
             \<lparr>tvAttached = None, listeners = 0\<rparr>] ! 1) = 1"
  using attach_binds_once
    [of 2 "[\<lparr>tvAttached = Some ''1'', listeners = 1\<rparr>, \<lparr>tvAttached = None, listeners = 0\<rparr>]" 1]
  by (simp add: attachDetectHandlers_def attach_one_def runs_on_click_def)

end
